theory Spec2Isabelle
  imports Complex_Main "HOL-Library.Word"
begin

section \<open>Numbers\<close>

text \<open>
  gamelib.js computes with JavaScript numbers. Timestamps (\<open>Date.now()\<close>) and counters are
  integers and are modelled as \<open>int\<close>. The frame timing, the sprite animation and the
  toroidal renderer are modelled over exact \<open>real\<close> numbers: what is stated about them is
  the code's own expressions and tests. The two integer coercions the
  file uses, \<open>~~x\<close> and \<open>x << n\<close>, go through the 32-bit conversion of the language:
  truncate towards zero, wrap modulo \<open>2 ^ 32\<close>, read as two's complement.
\<close>

definition truncate_toward_zero :: "real \<Rightarrow> int" where
  "truncate_toward_zero x = (if 0 \<le> x then \<lfloor>x\<rfloor> else - \<lfloor>- x\<rfloor>)"

definition ToInt32 :: "real \<Rightarrow> int" where
  "ToInt32 x = sint (word_of_int (truncate_toward_zero x) :: 32 word)"

definition shiftLeft :: "real \<Rightarrow> nat \<Rightarrow> int" where
  "shiftLeft x n = sint (push_bit (n mod 32) (word_of_int (truncate_toward_zero x) :: 32 word))"

definition FPSMS :: real where
  "FPSMS = 1000 / 60"

subsection \<open>Doubles\<close>

text \<open>
  The decay of an effect is stated in values that the rounding of the arithmetic decides, so
  \<open>effectValue\<close> is modelled over doubles: a number is a real that the binary64 format
  holds, an infinity, or NaN, and every operation rounds its exact result to the nearest
  double, ties to even, with gradual underflow and overflow to an infinity. The sign of zero
  is not modelled (it shows only in a division by a negative zero).
\<close>

datatype number = Num real | PosInf | NegInf | NaN

definition pow2 :: "int \<Rightarrow> real" where
  "pow2 k = (if 0 \<le> k then 2 ^ nat k else 1 / 2 ^ nat (- k))"

definition roundHalfEven :: "real \<Rightarrow> int" where
  "roundHalfEven z =
     (let f = \<lfloor>z\<rfloor>; d = z - real_of_int f
      in if d < 1 / 2 then f else if 1 / 2 < d then f + 1 else if even f then f else f + 1)"

text \<open>
  The binary exponent \<open>e\<close> of \<open>x\<close>, with \<open>2 ^ e \<le> |x| < 2 ^ (e + 1)\<close>, found by halving
  or doubling; it stops at \<open>-1022\<close>, the exponent of the subnormal numbers, and at
  \<open>1024\<close>, beyond the largest double.
\<close>

fun exponentUp :: "nat \<Rightarrow> real \<Rightarrow> int" where
  "exponentUp 0 x = 0"
| "exponentUp (Suc n) x = (if x < 2 then 0 else 1 + exponentUp n (x / 2))"

fun exponentDown :: "nat \<Rightarrow> real \<Rightarrow> int" where
  "exponentDown 0 x = 0"
| "exponentDown (Suc n) x = (if 1 \<le> x then 0 else exponentDown n (x * 2) - 1)"

definition exponent :: "real \<Rightarrow> int" where
  "exponent x = (if 1 \<le> \<bar>x\<bar> then exponentUp 1024 \<bar>x\<bar> else exponentDown 1022 \<bar>x\<bar>)"

text \<open>Rounding to 53 significant bits.\<close>

definition round64 :: "real \<Rightarrow> number" where
  "round64 x =
     (if x = 0 then Num 0
      else
        (let e = exponent x;
             y = real_of_int (roundHalfEven (x / pow2 (e - 52))) * pow2 (e - 52)
         in if pow2 1024 \<le> y then PosInf else if y \<le> - pow2 1024 then NegInf else Num y))"


definition num_of_int :: "int \<Rightarrow> number" where
  "num_of_int k = round64 (real_of_int k)"

fun num_div :: "number \<Rightarrow> number \<Rightarrow> number" where
  "num_div NaN b = NaN"
| "num_div a NaN = NaN"
| "num_div (Num x) (Num y) =
     (if y = 0 then (if x = 0 then NaN else if 0 < x then PosInf else NegInf)
      else round64 (x / y))"
| "num_div (Num x) b = Num 0"
| "num_div PosInf (Num y) = (if 0 \<le> y then PosInf else NegInf)"
| "num_div NegInf (Num y) = (if 0 \<le> y then NegInf else PosInf)"
| "num_div a b = NaN"

fun num_mul :: "number \<Rightarrow> number \<Rightarrow> number" where
  "num_mul NaN b = NaN"
| "num_mul a NaN = NaN"
| "num_mul (Num x) (Num y) = round64 (x * y)"
| "num_mul (Num x) PosInf = (if x = 0 then NaN else if 0 < x then PosInf else NegInf)"
| "num_mul (Num x) NegInf = (if x = 0 then NaN else if 0 < x then NegInf else PosInf)"
| "num_mul PosInf (Num y) = (if y = 0 then NaN else if 0 < y then PosInf else NegInf)"
| "num_mul NegInf (Num y) = (if y = 0 then NaN else if 0 < y then NegInf else PosInf)"
| "num_mul PosInf PosInf = PosInf"
| "num_mul PosInf NegInf = NegInf"
| "num_mul NegInf PosInf = NegInf"
| "num_mul NegInf NegInf = PosInf"

fun num_sub :: "number \<Rightarrow> number \<Rightarrow> number" where
  "num_sub NaN b = NaN"
| "num_sub a NaN = NaN"
| "num_sub (Num x) (Num y) = round64 (x - y)"
| "num_sub (Num x) PosInf = NegInf"
| "num_sub (Num x) NegInf = PosInf"
| "num_sub PosInf PosInf = NaN"
| "num_sub PosInf b = PosInf"
| "num_sub NegInf NegInf = NaN"
| "num_sub NegInf b = NegInf"

fun num_less :: "number \<Rightarrow> number \<Rightarrow> bool" where
  "num_less NaN b = False"
| "num_less a NaN = False"
| "num_less (Num x) (Num y) = (x < y)"
| "num_less (Num x) PosInf = True"
| "num_less (Num x) NegInf = False"
| "num_less PosInf b = False"
| "num_less NegInf NegInf = False"
| "num_less NegInf b = True"

section \<open>Data model\<close>

text \<open>
  Scenes are objects that the scene list, \<open>endScene\<close> and \<open>currentScene\<close> share by
  reference: these fields hold references (\<open>sref\<close>), \<open>null\<close> being \<open>None\<close>, and the scene
  objects live in a heap, so that the reset of an interval is seen through every reference.
  The interval of a scene is \<open>null\<close> or an \<open>Interval\<close>. The fields \<open>startScene\<close> and
  \<open>interval\<close> of \<open>Game.Main\<close> are never read and are left out. A call on \<open>null\<close> or
  \<open>undefined\<close> throws a \<open>TypeError\<close>.
\<close>

datatype error = TypeError

type_synonym sref = nat
type_synonym image_ref = nat
type_synonym Vector = "real \<times> real"

record Interval =
  label :: string
  framecounter :: int
  complete_flag :: bool

record Scene =
  playable :: bool
  interval :: "Interval option"

type_synonym heap = "sref \<Rightarrow> Scene"

record Main =
  scenes :: "sref list"
  endScene :: "sref option"
  currentScene :: "sref option"
  sceneIndex :: int

record GameHandler =
  game :: "Main option"
  paused :: bool
  canvas :: "nat option"
  width :: real
  height :: real
  frameCount :: int
  frameMultipler :: real
  frameStart :: int
  maxfps :: int

text \<open>
  Everything a frame does to the outside (the drawing context, the scene hooks, the
  animation-frame request) is recorded, in order, as a list of events.
\<close>

datatype event =
    OnInitScene sref
  | OnBeforeRenderScene sref
  | OnRenderGame
  | OnRenderScene sref
  | IntervalRenderer sref
  | CtxSave
  | CtxRestore
  | RequestAnimFrame int
  | DrawImage "image_ref option" real real real real real real real real

text \<open>
  The overridable methods \<open>isGameOver\<close> and \<open>isComplete\<close> and the interval's renderer
  callback are supplied by the surrounding game; a frame receives what they return
  (respectively do to the interval) during that frame. The other hooks keep their bodies of
  the base classes.
\<close>

record Hooks =
  isGameOver :: bool
  isComplete :: "sref \<Rightarrow> bool"
  intervalRenderer :: "sref \<Rightarrow> Interval \<Rightarrow> Interval"

record Actor =
  position :: Vector
  vector :: Vector

record SpriteActor = Actor +
  frameSize :: real
  animImage :: "image_ref option"
  animLength :: real
  animForward :: bool
  animSpeed :: real
  animFrame :: real

record EnemyActor = SpriteActor +
  alive :: bool

record EffectActor = Actor +
  lifespan :: number
  effectStart :: int

section \<open>Game.Interval and Game.Scene\<close>

definition reset :: "Interval \<Rightarrow> Interval" where
  "reset i = i\<lparr>framecounter := 0, complete_flag := False\<rparr>"

definition onInitScene :: "Scene \<Rightarrow> Scene" where
  "onInitScene s = (case interval s of None \<Rightarrow> s | Some i \<Rightarrow> s\<lparr>interval := Some (reset i)\<rparr>)"

definition isPlayable :: "Scene \<Rightarrow> bool" where
  "isPlayable s = playable s"

section \<open>Game.Main.frame\<close>

text \<open>\<open>xs[i]\<close>: \<open>undefined\<close> outside the array, here \<open>None\<close>.\<close>

definition sceneAt :: "sref list \<Rightarrow> int \<Rightarrow> sref option" where
  "sceneAt xs i = (if 0 \<le> i \<and> i < int (length xs) then Some (xs ! nat i) else None)"

text \<open>\<open>currentScene.interval === null || currentScene.interval.complete\<close>\<close>

definition intervalDone :: "Scene \<Rightarrow> bool" where
  "intervalDone s = (case interval s of None \<Rightarrow> True | Some i \<Rightarrow> complete_flag i)"

text \<open>
  \<open>currentScene.onInitScene()\<close> on a reference that may be \<open>null\<close> or \<open>undefined\<close>,
  which throws.
\<close>

definition initScene ::
  "Main \<Rightarrow> heap \<Rightarrow> sref option \<Rightarrow> error + (Main \<times> heap \<times> sref \<times> event list)" where
  "initScene m h r =
     (case r of
        None \<Rightarrow> Inl TypeError
      | Some s \<Rightarrow> Inr (m, h(s := onInitScene (h s)), s, [OnInitScene s]))"

text \<open>Lines 203 to 216: the first scene, or the end scene when the game is over.\<close>

definition enterScene ::
  "Hooks \<Rightarrow> Main \<Rightarrow> heap \<Rightarrow> error + (Main \<times> heap \<times> sref \<times> event list)" where
  "enterScene hk m h =
     (case currentScene m of
        None \<Rightarrow> initScene (m\<lparr>sceneIndex := 0\<rparr>) h (sceneAt (scenes m) 0)
      | Some c \<Rightarrow>
          if isGameOver hk then initScene (m\<lparr>sceneIndex := - 1\<rparr>) h (endScene m)
          else Inr (m, h, c, []))"

text \<open>Lines 218 to 231: the step to the next scene of the sequence.\<close>

definition advanceScene ::
  "Hooks \<Rightarrow> Main \<Rightarrow> heap \<Rightarrow> sref \<Rightarrow> error + (Main \<times> heap \<times> sref \<times> event list)" where
  "advanceScene hk m h c =
     (if intervalDone (h c) \<and> isComplete hk c then
        (let i = sceneIndex m + 1 in
         if i < int (length (scenes m))
         then initScene (m\<lparr>sceneIndex := i\<rparr>) h (sceneAt (scenes m) i)
         else initScene (m\<lparr>sceneIndex := 0\<rparr>) h (sceneAt (scenes m) 0))
      else Inr (m, h, c, []))"

definition resolveScene ::
  "Hooks \<Rightarrow> Main \<Rightarrow> heap \<Rightarrow> error + (Main \<times> heap \<times> sref \<times> event list)" where
  "resolveScene hk m h =
     (case enterScene hk m h of
        Inl e \<Rightarrow> Inl e
      | Inr (m1, h1, c1, ev1) \<Rightarrow>
          (case advanceScene hk m1 h1 c1 of
             Inl e \<Rightarrow> Inl e
           | Inr (m2, h2, c2, ev2) \<Rightarrow> Inr (m2, h2, c2, ev1 @ ev2)))"

text \<open>Lines 237 to 249: the render pass between \<open>ctx.save()\<close> and \<open>ctx.restore()\<close>.\<close>

definition renderPass :: "Hooks \<Rightarrow> heap \<Rightarrow> sref \<Rightarrow> heap \<times> event list" where
  "renderPass hk h c =
     (case interval (h c) of
        None \<Rightarrow> (h, [CtxSave, OnBeforeRenderScene c, OnRenderGame, OnRenderScene c, CtxRestore])
      | Some i \<Rightarrow>
          if complete_flag i
          then (h, [CtxSave, OnBeforeRenderScene c, OnRenderGame, OnRenderScene c, CtxRestore])
          else (h(c := (h c)\<lparr>interval := Some (intervalRenderer hk c i)\<rparr>),
                [CtxSave, OnRenderGame, IntervalRenderer c, CtxRestore]))"

text \<open>Lines 253 to 260: the frame counter and the timing of the frame.\<close>

definition updateTiming :: "int \<Rightarrow> GameHandler \<Rightarrow> GameHandler" where
  "updateTiming now gh =
     (let gh1 = gh\<lparr>frameCount := frameCount gh + 1\<rparr>;
          frameInterval = now - frameStart gh1;
          frameInterval = (if frameInterval = 0 then 1 else frameInterval);
          gh2 = (if frameCount gh1 mod 16 = 0
                 then gh1\<lparr>maxfps := ToInt32 (1000 / real_of_int frameInterval)\<rparr>
                 else gh1)
      in gh2\<lparr>frameMultipler := real_of_int frameInterval / FPSMS, frameStart := now\<rparr>)"

text \<open>
  \<open>frame\<close> runs on the game \<open>m\<close> (its \<open>this\<close>) and on the singleton \<open>GameHandler\<close>;
  \<open>now\<close> and \<open>now2\<close> are the readings of its two calls of \<open>Date.now()\<close>. An exception
  leaves the function at the place the source throws.
\<close>

definition frame ::
  "Hooks \<Rightarrow> int \<Rightarrow> int \<Rightarrow> Main \<Rightarrow> GameHandler \<Rightarrow> heap \<Rightarrow>
     error + (Main \<times> GameHandler \<times> heap \<times> event list)" where
  "frame hk now now2 m gh h =
     (case resolveScene hk m h of
        Inl e \<Rightarrow> Inl e
      | Inr (m1, h1, c, ev) \<Rightarrow>
          (case canvas gh of
             None \<Rightarrow> Inl TypeError
           | Some cv \<Rightarrow>
               (let (h2, rev) = renderPass hk h1 c;
                    m2 = m1\<lparr>currentScene := Some c\<rparr>;
                    gh1 = updateTiming now gh;
                    frameOffset = ToInt32 (FPSMS - real_of_int (now2 - now))
                in Inr (m2, gh1, h2,
                        ev @ rev @ (if \<not> paused gh1 then [RequestAnimFrame frameOffset] else [])))))"

section \<open>GameHandler\<close>

text \<open>The object literal \<open>GameHandler\<close> as the file declares it.\<close>

definition GameHandler_initial :: GameHandler where
  "GameHandler_initial =
     \<lparr>game = None, paused = False, canvas = None, width = 0, height = 0, frameCount = 0,
      frameMultipler = 1, frameStart = 0, maxfps = 0\<rparr>"

text \<open>\<open>GameHandler.game.frame.call(GameHandler.game)\<close>\<close>

definition callFrame ::
  "Hooks \<Rightarrow> int \<Rightarrow> int \<Rightarrow> GameHandler \<Rightarrow> heap \<Rightarrow> error + (GameHandler \<times> heap \<times> event list)" where
  "callFrame hk now now2 gh h =
     (case game gh of
        None \<Rightarrow> Inl TypeError
      | Some m \<Rightarrow>
          (case frame hk now now2 m gh h of
             Inl e \<Rightarrow> Inl e
           | Inr (m', gh', h', ev) \<Rightarrow> Inr (gh'\<lparr>game := Some m'\<rparr>, h', ev)))"

text \<open>
  \<open>start\<close> is called once with the game and then by the animation callback with an
  argument that is no \<open>Game.Main\<close> (here \<open>None\<close>). \<open>t0\<close> is the reading of the clock in
  \<open>start\<close> and in \<open>pause\<close>, \<open>now\<close> and \<open>now2\<close> are the readings inside the frame.
\<close>

definition start ::
  "Hooks \<Rightarrow> Main option \<Rightarrow> int \<Rightarrow> int \<Rightarrow> int \<Rightarrow> GameHandler \<Rightarrow> heap \<Rightarrow>
     error + (GameHandler \<times> heap \<times> event list)" where
  "start hk arg t0 now now2 gh h =
     (case arg of
        Some g \<Rightarrow> callFrame hk now now2 (gh\<lparr>game := Some g, frameStart := t0\<rparr>) h
      | None \<Rightarrow> callFrame hk now now2 gh h)"

definition pause ::
  "Hooks \<Rightarrow> int \<Rightarrow> int \<Rightarrow> int \<Rightarrow> GameHandler \<Rightarrow> heap \<Rightarrow>
     error + (GameHandler \<times> heap \<times> event list)" where
  "pause hk t0 now now2 gh h =
     (if paused gh
      then callFrame hk now now2 (gh\<lparr>paused := False, frameStart := t0\<rparr>) h
      else Inr (gh\<lparr>paused := True\<rparr>, h, []))"

section \<open>Game.Util.renderImage\<close>

definition renderImage ::
  "GameHandler \<Rightarrow> image_ref option \<Rightarrow> real \<Rightarrow> real \<Rightarrow> real \<Rightarrow> real \<Rightarrow> real \<Rightarrow> real \<Rightarrow> event list" where
  "renderImage gh img nx ny ns x y s =
     [DrawImage img nx ny ns ns x y s s]
     @ (if x < 0 then [DrawImage img nx ny ns ns (width gh + x) y s s] else [])
     @ (if y < 0 then [DrawImage img nx ny ns ns x (height gh + y) s s] else [])
     @ (if x < 0 \<and> y < 0
        then [DrawImage img nx ny ns ns (width gh + x) (height gh + y) s s] else [])
     @ (if x + s > width gh then [DrawImage img nx ny ns ns (x - width gh) y s s] else [])
     @ (if y + s > height gh then [DrawImage img nx ny ns ns x (y - height gh) s s] else [])
     @ (if x + s > width gh \<and> y + s > height gh
        then [DrawImage img nx ny ns ns (x - width gh) (y - height gh) s s] else [])"

section \<open>Game.SpriteActor, Game.EnemyActor, Game.EffectActor\<close>

text \<open>
  The constructor of \<open>Game.SpriteActor\<close>: the fields are the defaults of the prototype,
  and a frame size that is given (truthy, so other than 0) replaces the default 64.
\<close>

definition SpriteActor_new :: "Vector \<Rightarrow> Vector \<Rightarrow> real \<Rightarrow> SpriteActor" where
  "SpriteActor_new p v s =
     \<lparr>position = p, vector = v, frameSize = (if s \<noteq> 0 then s else 64),
      animImage = None, animLength = 0, animForward = True, animSpeed = 1, animFrame = 0\<rparr>"

definition renderSprite ::
  "GameHandler \<Rightarrow> SpriteActor \<Rightarrow> real \<Rightarrow> real \<Rightarrow> real \<Rightarrow> SpriteActor \<times> event list" where
  "renderSprite gh a x y s =
     (let calls = renderImage gh (animImage a) 0 (real_of_int (shiftLeft (animFrame a) 6))
                    (frameSize a) x y s;
          a' = (if animForward a then
                  (let f = animFrame a + animSpeed a * frameMultipler gh
                   in a\<lparr>animFrame := (if f \<ge> animLength a then 0 else f)\<rparr>)
                else
                  (let f = animFrame a - animSpeed a * frameMultipler gh
                   in a\<lparr>animFrame := (if f < 0 then animLength a - 1 else f)\<rparr>))
      in (a', calls))"

definition EnemyActor_expired :: "EnemyActor \<Rightarrow> bool" where
  "EnemyActor_expired a = (\<not> alive a)"

definition hit :: "EnemyActor \<Rightarrow> real \<Rightarrow> EnemyActor \<times> bool" where
  "hit a force = (a\<lparr>alive := False\<rparr>, True)"


definition EffectActor_expired :: "GameHandler \<Rightarrow> EffectActor \<Rightarrow> bool" where
  "EffectActor_expired gh a = num_less (lifespan a) (num_of_int (frameStart gh - effectStart a))"

text \<open>
  Line 632 in doubles: the quotient, the product and the difference are each rounded; the
  two comparisons are false on NaN, which is then returned.
\<close>

definition effectValue :: "GameHandler \<Rightarrow> EffectActor \<Rightarrow> number \<Rightarrow> number" where
  "effectValue gh a val =
     (let result = num_sub val (num_mul (num_div val (lifespan a))
                                        (num_of_int (frameStart gh - effectStart a)))
      in if num_less result (Num 0) then Num 0
         else if num_less val result then val
         else result)"

section \<open>Vocabulary of the statements and example configurations\<close>

text \<open>
  The draw of the same source tile with the destination moved by \<open>i\<close> field widths and
  \<open>j\<close> field heights.
\<close>

definition shifted ::
  "GameHandler \<Rightarrow> image_ref option \<Rightarrow> real \<Rightarrow> real \<Rightarrow> real \<Rightarrow> real \<Rightarrow> real \<Rightarrow> real \<Rightarrow>
     int \<Rightarrow> int \<Rightarrow> event" where
  "shifted gh img nx ny ns x y s i j =
     DrawImage img nx ny ns ns (x + real_of_int i * width gh) (y + real_of_int j * height gh) s s"

definition field10 :: GameHandler where
  "field10 = GameHandler_initial\<lparr>width := 10, height := 10\<rparr>"

definition field640 :: GameHandler where
  "field640 = GameHandler_initial\<lparr>width := 640, height := 640\<rparr>"

definition reversed_sprite :: SpriteActor where
  "reversed_sprite = (SpriteActor_new (0, 0) (0, 0) 0)\<lparr>animLength := 10, animSpeed := - 1 / 2\<rparr>"




text \<open>The scenes whose \<open>onInitScene\<close> a list of events calls, in order.\<close>

fun initCalls :: "event list \<Rightarrow> sref list" where
  "initCalls [] = []"
| "initCalls (OnInitScene s # es) = s # initCalls es"
| "initCalls (e # es) = initCalls es"

text \<open>The scene index is the sentinel \<open>-1\<close> or an index of the scene list.\<close>

definition indexOk :: "Main \<Rightarrow> bool" where
  "indexOk m = (sceneIndex m = - 1 \<or> (0 \<le> sceneIndex m \<and> sceneIndex m < int (length (scenes m))))"

text \<open>
  A configuration on which no frame throws: a canvas, at least one scene, an end scene, and
  an index that is not below the sentinel.
\<close>

definition wellFormed :: "Main \<Rightarrow> GameHandler \<Rightarrow> bool" where
  "wellFormed m gh = (canvas gh \<noteq> None \<and> scenes m \<noteq> [] \<and> endScene m \<noteq> None \<and> - 1 \<le> sceneIndex m)"

text \<open>
  Successive frames, as the animation callback runs them; each comes with what the hooks
  return and with its two clock readings.
\<close>

fun run :: "(Hooks \<times> int \<times> int) list \<Rightarrow> Main \<Rightarrow> GameHandler \<Rightarrow> heap \<Rightarrow>
    error + (Main \<times> GameHandler \<times> heap \<times> event list)" where
  "run [] m gh h = Inr (m, gh, h, [])"
| "run ((hk, now, now2) # ts) m gh h =
     (case frame hk now now2 m gh h of
        Inl e \<Rightarrow> Inl e
      | Inr (m1, gh1, h1, ev1) \<Rightarrow>
          (case run ts m1 gh1 h1 of
             Inl e \<Rightarrow> Inl e
           | Inr (m2, gh2, h2, ev2) \<Rightarrow> Inr (m2, gh2, h2, ev1 @ ev2)))"

text \<open>
  A game as \<open>Game.Main.prototype\<close> leaves it (no current scene, index \<open>-1\<close>), with the
  scene list and the end scene the derived game registers.
\<close>

definition Main_new :: "sref list \<Rightarrow> sref option \<Rightarrow> Main" where
  "Main_new ss e = \<lparr>scenes = ss, endScene = e, currentScene = None, sceneIndex = - 1\<rparr>"

text \<open>Example scenes, hooks and states: scenes 0 and 1 in sequence, end scene 2.\<close>

definition plain_scenes :: heap where
  "plain_scenes = (\<lambda>_. \<lparr>playable = True, interval = None\<rparr>)"

definition timed_scenes :: heap where
  "timed_scenes = (\<lambda>_. \<lparr>playable = True,
      interval = Some \<lparr>label = ''wait'', framecounter = 0, complete_flag = False\<rparr>\<rparr>)"

definition hooks :: "bool \<Rightarrow> bool \<Rightarrow> Hooks" where
  "hooks over done = \<lparr>isGameOver = over, isComplete = (\<lambda>_. done), intervalRenderer = (\<lambda>_ i. i\<lparr>framecounter := framecounter i + 1\<rparr>)\<rparr>"

definition ready :: GameHandler where
  "ready = GameHandler_initial\<lparr>canvas := Some 0, width := 640, height := 640\<rparr>"

definition two_scenes :: Main where
  "two_scenes = Main_new [0, 1] (Some 2)"

definition playing :: Main where
  "playing = two_scenes\<lparr>currentScene := Some 0, sceneIndex := 0\<rparr>"

definition ended :: Main where
  "ended = two_scenes\<lparr>currentScene := Some 2, sceneIndex := - 1\<rparr>"

definition steady_render :: "sref \<Rightarrow> event list" where
  "steady_render c = [CtxSave, OnBeforeRenderScene c, OnRenderGame, OnRenderScene c, CtxRestore]"

definition halted :: GameHandler where
  "halted = ready\<lparr>game := Some playing, paused := True, frameStart := 1000\<rparr>"

definition resumed :: "int \<Rightarrow> int \<Rightarrow> GameHandler" where
  "resumed t0 now = (updateTiming now (halted\<lparr>paused := False, frameStart := t0\<rparr>))\<lparr>game := Some playing\<rparr>"

section \<open>The 32-bit shift\<close>

lemma shiftLeft_6: "shiftLeft f 6 = signed_take_bit 31 (truncate_toward_zero f * 64)"
proof -
  let ?k = "truncate_toward_zero f"
  have "push_bit 6 (word_of_int ?k :: 32 word) = word_of_int (?k * 64)"
    by (simp add: push_bit_eq_mult)
  moreover have "sint (word_of_int (?k * 64) :: 32 word) = signed_take_bit 31 (?k * 64)"
    using sint_sbintrunc' [where 'a = 32, of "?k * 64"] by simp
  ultimately show ?thesis
    by (simp add: shiftLeft_def)
qed

lemma shiftLeft_6_floor:
  assumes "0 \<le> f" "f < 2 ^ 25"
  shows "shiftLeft f 6 = \<lfloor>f\<rfloor> * 64"
proof -
  have t: "truncate_toward_zero f = \<lfloor>f\<rfloor>" using assms by (simp add: truncate_toward_zero_def)
  have "0 \<le> \<lfloor>f\<rfloor>" using assms by simp
  moreover have "\<lfloor>f\<rfloor> < 2 ^ 25" using assms by (simp add: floor_less_iff)
  ultimately have "- (2 ^ 31) \<le> \<lfloor>f\<rfloor> * 64 \<and> \<lfloor>f\<rfloor> * 64 < 2 ^ 31" by simp
  then show ?thesis
    by (simp only: shiftLeft_6 t signed_take_bit_int_eq_self_iff [THEN iffD2])
qed

section \<open>Toroidal rendering\<close>

lemma renderImage_length:
  "length (renderImage gh img nx ny ns x y s) =
     1 + (if x < 0 then 1 else 0) + (if y < 0 then 1 else 0) + (if x < 0 \<and> y < 0 then 1 else 0)
       + (if x + s > width gh then 1 else 0) + (if y + s > height gh then 1 else 0)
       + (if x + s > width gh \<and> y + s > height gh then 1 else 0)"
  by (simp add: renderImage_def)

lemma renderImage_set:
  "set (renderImage gh img nx ny ns x y s) \<subseteq>
     {shifted gh img nx ny ns x y s 0 0, shifted gh img nx ny ns x y s 1 0, shifted gh img nx ny ns x y s 0 1,
      shifted gh img nx ny ns x y s 1 1, shifted gh img nx ny ns x y s (- 1) 0,
      shifted gh img nx ny ns x y s 0 (- 1), shifted gh img nx ny ns x y s (- 1) (- 1)}"
  by (auto simp: renderImage_def shifted_def add.commute)

lemma renderImage_shifted:
  "renderImage gh img nx ny ns x y s =
     shifted gh img nx ny ns x y s 0 0
     # (if x < 0 then [shifted gh img nx ny ns x y s 1 0] else [])
     @ (if y < 0 then [shifted gh img nx ny ns x y s 0 1] else [])
     @ (if x < 0 \<and> y < 0 then [shifted gh img nx ny ns x y s 1 1] else [])
     @ (if x + s > width gh then [shifted gh img nx ny ns x y s (- 1) 0] else [])
     @ (if y + s > height gh then [shifted gh img nx ny ns x y s 0 (- 1)] else [])
     @ (if x + s > width gh \<and> y + s > height gh
        then [shifted gh img nx ny ns x y s (- 1) (- 1)] else [])"
  by (simp add: renderImage_def shifted_def add.commute)

lemma renderImage_tl:
  "\<forall>d \<in> set (tl (renderImage gh img nx ny ns x y s)).
     \<exists>i \<in> {- 1, 0, 1}. \<exists>j \<in> {- 1, 0, 1}. (i, j) \<noteq> (0, 0) \<and> d = shifted gh img nx ny ns x y s i j"
  by (auto simp: renderImage_shifted)

text \<open>
  Claim C7, as the code has it. A destination square inside the field is drawn once. A
  destination at \<open>destX = -5\<close> that crosses no other edge is drawn twice, the second time
  at \<open>destX = W - 5\<close>. The primary draw always comes first; at most 6 further draws follow,
  and at most 4 unless the square is larger than the field in both dimensions; further draws
  are issued exactly when the square crosses an edge of the field. The further draws are, in
  this order and each under its own test, the copies moved by \<open>(+W, 0)\<close>, \<open>(0, +H)\<close>,
  \<open>(+W, +H)\<close>, \<open>(-W, 0)\<close>, \<open>(0, -H)\<close> and \<open>(-W, -H)\<close>: none of them is the primary draw
  unmoved.
\<close>

theorem renderImage_draws:
  "(0 \<le> x \<and> 0 \<le> y \<and> x + s \<le> width gh \<and> y + s \<le> height gh \<longrightarrow>
      renderImage gh img nx ny ns x y s = [DrawImage img nx ny ns ns x y s s])
   \<and> (0 \<le> y \<and> - 5 + s \<le> width gh \<and> y + s \<le> height gh \<longrightarrow>
      renderImage gh img nx ny ns (- 5) y s =
        [DrawImage img nx ny ns ns (- 5) y s s, DrawImage img nx ny ns ns (width gh - 5) y s s])
   \<and> hd (renderImage gh img nx ny ns x y s) = DrawImage img nx ny ns ns x y s s
   \<and> length (renderImage gh img nx ny ns x y s) \<le> 1 + 6
   \<and> (s \<le> width gh \<or> s \<le> height gh \<longrightarrow> length (renderImage gh img nx ny ns x y s) \<le> 1 + 4)
   \<and> (1 < length (renderImage gh img nx ny ns x y s)
        \<longleftrightarrow> x < 0 \<or> y < 0 \<or> x + s > width gh \<or> y + s > height gh)
   \<and> tl (renderImage gh img nx ny ns x y s) =
         (if x < 0 then [shifted gh img nx ny ns x y s 1 0] else [])
         @ (if y < 0 then [shifted gh img nx ny ns x y s 0 1] else [])
         @ (if x < 0 \<and> y < 0 then [shifted gh img nx ny ns x y s 1 1] else [])
         @ (if x + s > width gh then [shifted gh img nx ny ns x y s (- 1) 0] else [])
         @ (if y + s > height gh then [shifted gh img nx ny ns x y s 0 (- 1)] else [])
         @ (if x + s > width gh \<and> y + s > height gh
            then [shifted gh img nx ny ns x y s (- 1) (- 1)] else [])
   \<and> (\<forall>d \<in> set (tl (renderImage gh img nx ny ns x y s)).
        \<exists>i \<in> {- 1, 0, 1}. \<exists>j \<in> {- 1, 0, 1}.
          (i, j) \<noteq> (0, 0) \<and> d = shifted gh img nx ny ns x y s i j)"
proof -
  have a: "0 \<le> x \<and> 0 \<le> y \<and> x + s \<le> width gh \<and> y + s \<le> height gh \<longrightarrow>
      renderImage gh img nx ny ns x y s = [DrawImage img nx ny ns ns x y s s]"
    by (simp add: renderImage_def)
  have b: "0 \<le> y \<and> - 5 + s \<le> width gh \<and> y + s \<le> height gh \<longrightarrow>
      renderImage gh img nx ny ns (- 5) y s =
        [DrawImage img nx ny ns ns (- 5) y s s, DrawImage img nx ny ns ns (width gh - 5) y s s]"
    by (simp add: renderImage_def)
  have c: "hd (renderImage gh img nx ny ns x y s) = DrawImage img nx ny ns ns x y s s"
    by (simp add: renderImage_def)
  have d: "length (renderImage gh img nx ny ns x y s) \<le> 1 + 6"
    by (simp add: renderImage_length)
  have e: "s \<le> width gh \<or> s \<le> height gh \<longrightarrow> length (renderImage gh img nx ny ns x y s) \<le> 1 + 4"
    by (auto simp: renderImage_length)
  have f: "1 < length (renderImage gh img nx ny ns x y s)
        \<longleftrightarrow> x < 0 \<or> y < 0 \<or> x + s > width gh \<or> y + s > height gh"
    by (auto simp: renderImage_length)
  have g: "tl (renderImage gh img nx ny ns x y s) =
         (if x < 0 then [shifted gh img nx ny ns x y s 1 0] else [])
         @ (if y < 0 then [shifted gh img nx ny ns x y s 0 1] else [])
         @ (if x < 0 \<and> y < 0 then [shifted gh img nx ny ns x y s 1 1] else [])
         @ (if x + s > width gh then [shifted gh img nx ny ns x y s (- 1) 0] else [])
         @ (if y + s > height gh then [shifted gh img nx ny ns x y s 0 (- 1)] else [])
         @ (if x + s > width gh \<and> y + s > height gh
            then [shifted gh img nx ny ns x y s (- 1) (- 1)] else [])"
    by (simp only: renderImage_shifted list.sel)
  have h: "\<forall>d \<in> set (tl (renderImage gh img nx ny ns x y s)).
        \<exists>i \<in> {- 1, 0, 1}. \<exists>j \<in> {- 1, 0, 1}.
          (i, j) \<noteq> (0, 0) \<and> d = shifted gh img nx ny ns x y s i j"
    by (rule renderImage_tl)
  from a b c d e f g h show ?thesis by blast
qed

theorem renderImage_draws_witness:
  "renderImage field640 None 0 0 64 100 100 64 = [DrawImage None 0 0 64 64 100 100 64 64]
   \<and> renderImage field640 None 0 0 64 (- 5) 100 64 =
        [DrawImage None 0 0 64 64 (- 5) 100 64 64, DrawImage None 0 0 64 64 635 100 64 64]
   \<and> tl (renderImage field640 None 0 0 64 (- 5) (- 5) 64) =
        [DrawImage None 0 0 64 64 635 (- 5) 64 64, DrawImage None 0 0 64 64 (- 5) 635 64 64,
         DrawImage None 0 0 64 64 635 635 64 64]
   \<and> tl (renderImage field640 None 0 0 64 600 600 64) =
        [DrawImage None 0 0 64 64 (- 40) 600 64 64, DrawImage None 0 0 64 64 600 (- 40) 64 64,
         DrawImage None 0 0 64 64 (- 40) (- 40) 64 64]
   \<and> length (renderImage field640 None 0 0 64 (- 5) (- 5) 64) \<le> 5"
proof -
  note A = renderImage_draws [where gh = field640 and img = None and nx = 0 and ny = 0 and ns = 64
        and x = 100 and y = 100 and s = 64]
  note B = renderImage_draws [where gh = field640 and img = None and nx = 0 and ny = 0 and ns = 64
        and x = "- 5" and y = 100 and s = 64]
  note C = renderImage_draws [where gh = field640 and img = None and nx = 0 and ny = 0 and ns = 64
        and x = "- 5" and y = "- 5" and s = 64]
  note D = renderImage_draws [where gh = field640 and img = None and nx = 0 and ny = 0 and ns = 64
        and x = 600 and y = 600 and s = 64]
  have w: "width field640 = 640" "height field640 = 640"
    by (simp_all add: field640_def GameHandler_initial_def)
  from A w have a: "renderImage field640 None 0 0 64 100 100 64 = [DrawImage None 0 0 64 64 100 100 64 64]"
    by simp
  from B w have b: "renderImage field640 None 0 0 64 (- 5) 100 64 =
        [DrawImage None 0 0 64 64 (- 5) 100 64 64, DrawImage None 0 0 64 64 635 100 64 64]"
    by simp
  from C w have c: "tl (renderImage field640 None 0 0 64 (- 5) (- 5) 64) =
        [DrawImage None 0 0 64 64 635 (- 5) 64 64, DrawImage None 0 0 64 64 (- 5) 635 64 64,
         DrawImage None 0 0 64 64 635 635 64 64]"
    by (simp add: shifted_def)
  from D w have d: "tl (renderImage field640 None 0 0 64 600 600 64) =
        [DrawImage None 0 0 64 64 (- 40) 600 64 64, DrawImage None 0 0 64 64 600 (- 40) 64 64,
         DrawImage None 0 0 64 64 (- 40) (- 40) 64 64]"
    by (simp add: shifted_def)
  from C w have e: "length (renderImage field640 None 0 0 64 (- 5) (- 5) 64) \<le> 5"
    by simp
  from a b c d e show ?thesis by blast
qed

text \<open>
  Claim C7 as it was stated, with at most 4 further draws, fails for a square of size 20 at
  \<open>(-1, -1)\<close> on a field of 10 by 10: all six tests hold and the image is drawn 7 times.
\<close>

theorem renderImage_seven_draws:
  "length (renderImage field10 None 0 0 64 (- 1) (- 1) 20) = 1 + 6"
  by (simp add: renderImage_def field10_def GameHandler_initial_def)

section \<open>Effect decay\<close>

text \<open>
  Evaluation of the rounding on numerals: the search for the exponent unfolds one step at a
  time.
\<close>

lemma exponentUp_numeral [simp]:
  "exponentUp (numeral k) x = (if x < 2 then 0 else 1 + exponentUp (pred_numeral k) (x / 2))"
  by (simp add: numeral_eq_Suc)

lemma exponentDown_numeral [simp]:
  "exponentDown (numeral k) x = (if 1 \<le> x then 0 else exponentDown (pred_numeral k) (x * 2) - 1)"
  by (simp add: numeral_eq_Suc)

lemmas double_eval = round64_def exponent_def pow2_def roundHalfEven_def num_of_int_def Let_def

lemma round64_not_NaN [simp]: "round64 x \<noteq> NaN"
  by (simp add: round64_def Let_def)

lemma num_of_int_0 [simp]: "num_of_int 0 = Num 0"
  by (simp add: num_of_int_def round64_def)


lemma round64_examples:
  "round64 (1 / 10) = Num (3602879701896397 / 2 ^ 55)"
  "round64 (2 ^ 53 + 1) = Num (2 ^ 53)"
  "round64 (2 ^ 53 + 3) = Num (2 ^ 53 + 4)"
  by (simp_all add: double_eval)






text \<open>
  A lifespan of 0 divides by zero: the quotient is an infinity, the product with the elapsed
  time an infinity or NaN, and the function returns 0, the value, or NaN.
\<close>

lemma effectValue_zero_lifespan:
  "lifespan a = Num 0 \<Longrightarrow> frameStart gh - effectStart a = 5 \<Longrightarrow> effectValue gh a (Num 100) = Num 0"
  "lifespan a = Num 0 \<Longrightarrow> frameStart gh - effectStart a = - 5 \<Longrightarrow> effectValue gh a (Num 100) = Num 100"
  "lifespan a = Num 0 \<Longrightarrow> frameStart gh - effectStart a = 0 \<Longrightarrow> effectValue gh a (Num 100) = NaN"
  by (simp_all add: effectValue_def double_eval)




section \<open>Sprite animation\<close>

lemma renderSprite_fst:
  "fst (renderSprite gh a x y s) =
     (if animForward a
      then a\<lparr>animFrame := (if animFrame a + animSpeed a * frameMultipler gh \<ge> animLength a then 0
                             else animFrame a + animSpeed a * frameMultipler gh)\<rparr>
      else a\<lparr>animFrame := (if animFrame a - animSpeed a * frameMultipler gh < 0 then animLength a - 1
                             else animFrame a - animSpeed a * frameMultipler gh)\<rparr>)"
  by (simp add: renderSprite_def Let_def)

lemma renderSprite_snd:
  "snd (renderSprite gh a x y s) =
     renderImage gh (animImage a) 0 (real_of_int (shiftLeft (animFrame a) 6)) (frameSize a) x y s"
  by (simp add: renderSprite_def Let_def)

text \<open>
  Claim C6: a call of \<open>renderSprite\<close> moves \<open>animFrame\<close> by
  \<open>animSpeed * frameMultipler\<close> in the configured direction; going forward, a frame that
  reaches or passes \<open>animLength\<close> becomes 0, going backward, a frame below 0 becomes
  \<open>animLength - 1\<close>, and nothing of the overshoot is carried over. With a step that is not
  negative and a length of at least 1, a frame in \<open>[0, animLength)\<close> stays there.
\<close>

theorem renderSprite_animFrame:
  "(animForward a \<and> animFrame a + animSpeed a * frameMultipler gh \<ge> animLength a
      \<longrightarrow> fst (renderSprite gh a x y s) = a\<lparr>animFrame := 0\<rparr>)
   \<and> (animForward a \<and> animFrame a + animSpeed a * frameMultipler gh < animLength a
      \<longrightarrow> fst (renderSprite gh a x y s)
            = a\<lparr>animFrame := animFrame a + animSpeed a * frameMultipler gh\<rparr>)
   \<and> (\<not> animForward a \<and> animFrame a - animSpeed a * frameMultipler gh < 0
      \<longrightarrow> fst (renderSprite gh a x y s) = a\<lparr>animFrame := animLength a - 1\<rparr>)
   \<and> (\<not> animForward a \<and> animFrame a - animSpeed a * frameMultipler gh \<ge> 0
      \<longrightarrow> fst (renderSprite gh a x y s)
            = a\<lparr>animFrame := animFrame a - animSpeed a * frameMultipler gh\<rparr>)
   \<and> (0 \<le> animSpeed a * frameMultipler gh \<and> 1 \<le> animLength a
        \<and> 0 \<le> animFrame a \<and> animFrame a < animLength a
      \<longrightarrow> 0 \<le> animFrame (fst (renderSprite gh a x y s))
          \<and> animFrame (fst (renderSprite gh a x y s)) < animLength a)"
proof -
  let ?d = "animSpeed a * frameMultipler gh"
  let ?a' = "fst (renderSprite gh a x y s)"
  have fw: "animForward a \<and> animFrame a + ?d \<ge> animLength a \<longrightarrow> ?a' = a\<lparr>animFrame := 0\<rparr>"
    by (simp add: renderSprite_fst)
  have fs: "animForward a \<and> animFrame a + ?d < animLength a
      \<longrightarrow> ?a' = a\<lparr>animFrame := animFrame a + ?d\<rparr>"
    by (simp add: renderSprite_fst)
  have bw: "\<not> animForward a \<and> animFrame a - ?d < 0 \<longrightarrow> ?a' = a\<lparr>animFrame := animLength a - 1\<rparr>"
    by (simp add: renderSprite_fst)
  have bs: "\<not> animForward a \<and> animFrame a - ?d \<ge> 0
      \<longrightarrow> ?a' = a\<lparr>animFrame := animFrame a - ?d\<rparr>"
    by (simp add: renderSprite_fst)
  have range: "0 \<le> ?d \<and> 1 \<le> animLength a \<and> 0 \<le> animFrame a \<and> animFrame a < animLength a
      \<longrightarrow> 0 \<le> animFrame ?a' \<and> animFrame ?a' < animLength a"
  proof
    assume h: "0 \<le> ?d \<and> 1 \<le> animLength a \<and> 0 \<le> animFrame a \<and> animFrame a < animLength a"
    show "0 \<le> animFrame ?a' \<and> animFrame ?a' < animLength a"
    proof (cases "animForward a")
      case True
      with h show ?thesis by (simp add: renderSprite_fst)
    next
      case False
      with h show ?thesis by (simp add: renderSprite_fst)
    qed
  qed
  from fw fs bw bs range show ?thesis by blast
qed

theorem renderSprite_animFrame_witness:
  "animFrame (fst (renderSprite GameHandler_initial
       ((SpriteActor_new (0, 0) (0, 0) 0)\<lparr>animLength := 10, animFrame := 9\<rparr>) 0 0 64)) = 0
   \<and> animFrame (fst (renderSprite GameHandler_initial
       ((SpriteActor_new (0, 0) (0, 0) 0)\<lparr>animLength := 10, animFrame := 17 / 2\<rparr>) 0 0 64)) = 19 / 2
   \<and> animFrame (fst (renderSprite GameHandler_initial
       ((SpriteActor_new (0, 0) (0, 0) 0)\<lparr>animLength := 10, animForward := False, animFrame := 1 / 2\<rparr>)
       0 0 64)) = 9"
  using renderSprite_animFrame [where gh = GameHandler_initial and x = 0 and y = 0 and s = 64
      and a = "(SpriteActor_new (0, 0) (0, 0) 0)\<lparr>animLength := 10, animFrame := 9\<rparr>"]
    renderSprite_animFrame [where gh = GameHandler_initial and x = 0 and y = 0 and s = 64
      and a = "(SpriteActor_new (0, 0) (0, 0) 0)\<lparr>animLength := 10, animFrame := 17 / 2\<rparr>"]
    renderSprite_animFrame [where gh = GameHandler_initial and x = 0 and y = 0 and s = 64
      and a = "(SpriteActor_new (0, 0) (0, 0) 0)\<lparr>animLength := 10, animForward := False,
                 animFrame := 1 / 2\<rparr>"]
  by (simp add: SpriteActor_new_def GameHandler_initial_def)

text \<open>
  Claim C10, as the code has it. Every draw of \<open>renderSprite\<close> takes its source tile at
  \<open>x = 0\<close>, \<open>y = animFrame << 6\<close> with the size \<open>frameSize\<close>: the offset does not depend
  on \<open>frameSize\<close>. The shift truncates \<open>animFrame\<close> towards zero, multiplies by 64 and wraps
  to 32 signed bits; this is \<open>floor(animFrame) * 64\<close> for \<open>0 \<le> animFrame < 2 ^ 25\<close>, and
  there one more frame moves the offset by 64 whatever \<open>frameSize\<close> is.
\<close>

theorem renderSprite_source_offset:
  "(\<forall>d \<in> set (snd (renderSprite gh a x y s)).
      \<exists>dx dy. d = DrawImage (animImage a) 0 (real_of_int (shiftLeft (animFrame a) 6))
                     (frameSize a) (frameSize a) dx dy s s)
   \<and> shiftLeft (animFrame a) 6 = signed_take_bit 31 (truncate_toward_zero (animFrame a) * 64)
   \<and> (0 \<le> animFrame a \<and> animFrame a < 2 ^ 25 \<longrightarrow> shiftLeft (animFrame a) 6 = \<lfloor>animFrame a\<rfloor> * 64)
   \<and> (0 \<le> animFrame a \<and> animFrame a + 1 < 2 ^ 25 \<longrightarrow>
        shiftLeft (animFrame a + 1) 6 - shiftLeft (animFrame a) 6 = 64)"
proof -
  have draws: "\<forall>d \<in> set (snd (renderSprite gh a x y s)).
      \<exists>dx dy. d = DrawImage (animImage a) 0 (real_of_int (shiftLeft (animFrame a) 6))
                     (frameSize a) (frameSize a) dx dy s s"
    using renderImage_set [of gh "animImage a" 0 "real_of_int (shiftLeft (animFrame a) 6)"
        "frameSize a" x y s]
    by (auto simp: renderSprite_snd shifted_def)
  have fl: "0 \<le> animFrame a \<and> animFrame a < 2 ^ 25 \<longrightarrow> shiftLeft (animFrame a) 6 = \<lfloor>animFrame a\<rfloor> * 64"
    by (simp add: shiftLeft_6_floor)
  have stride: "0 \<le> animFrame a \<and> animFrame a + 1 < 2 ^ 25 \<longrightarrow>
        shiftLeft (animFrame a + 1) 6 - shiftLeft (animFrame a) 6 = 64"
  proof
    assume h: "0 \<le> animFrame a \<and> animFrame a + 1 < 2 ^ 25"
    then have "shiftLeft (animFrame a + 1) 6 = \<lfloor>animFrame a + 1\<rfloor> * 64"
      and "shiftLeft (animFrame a) 6 = \<lfloor>animFrame a\<rfloor> * 64"
      by (simp_all add: shiftLeft_6_floor)
    then show "shiftLeft (animFrame a + 1) 6 - shiftLeft (animFrame a) 6 = 64"
      by simp
  qed
  from draws shiftLeft_6 [of "animFrame a"] fl stride show ?thesis by blast
qed

theorem renderSprite_source_offset_witness:
  "snd (renderSprite field640 ((SpriteActor_new (0, 0) (0, 0) 32)\<lparr>animLength := 10, animFrame := 19 / 2\<rparr>)
          100 100 32) = [DrawImage None 0 576 32 32 100 100 32 32]
   \<and> \<lfloor>19 / 2 :: real\<rfloor> * 64 = 576"
  using renderSprite_source_offset [where gh = field640 and x = 100 and y = 100 and s = 32
      and a = "(SpriteActor_new (0, 0) (0, 0) 32)\<lparr>animLength := 10, animFrame := 19 / 2\<rparr>"]
  by (simp add: renderSprite_snd renderImage_def SpriteActor_new_def field640_def GameHandler_initial_def)

text \<open>
  Claim C10 as it was stated, with the floor for every sprite, fails below zero. A sprite with
  \<open>animSpeed = -1/2\<close> goes from frame 0 to frame \<open>-1/2\<close> in one render; the next render
  samples at offset 0, and \<open>floor(-1/2) * 64\<close> is \<open>-64\<close>.
\<close>

theorem renderSprite_truncates_negative_frame:
  "animFrame (fst (renderSprite field640 reversed_sprite 100 100 64)) = - 1 / 2
   \<and> snd (renderSprite field640 (fst (renderSprite field640 reversed_sprite 100 100 64)) 100 100 64)
        = [DrawImage None 0 0 64 64 100 100 64 64]
   \<and> real_of_int (\<lfloor>animFrame (fst (renderSprite field640 reversed_sprite 100 100 64))\<rfloor> * 64) = - 64"
  by (simp add: renderSprite_fst renderSprite_snd renderImage_def reversed_sprite_def SpriteActor_new_def
      field640_def GameHandler_initial_def shiftLeft_def truncate_toward_zero_def)

section \<open>Frames: how they return\<close>

lemma initCalls_append [simp]: "initCalls (xs @ ys) = initCalls xs @ initCalls ys"
  by (induction xs rule: initCalls.induct) simp_all

lemma updateTiming_frameMultipler:
  "frameMultipler (updateTiming now gh) =
     real_of_int (if now - frameStart gh = 0 then 1 else now - frameStart gh) / FPSMS"
  by (simp add: updateTiming_def Let_def)

lemma updateTiming_fields:
  "frameStart (updateTiming now gh) = now"
  "frameCount (updateTiming now gh) = frameCount gh + 1"
  "paused (updateTiming now gh) = paused gh"
  "canvas (updateTiming now gh) = canvas gh"
  "game (updateTiming now gh) = game gh"
  "width (updateTiming now gh) = width gh"
  "height (updateTiming now gh) = height gh"
  by (simp_all add: updateTiming_def Let_def)

lemma frame_Inr:
  "frame hk now now2 m gh h = Inr r \<longleftrightarrow>
     (\<exists>m1 h1 c ev1. resolveScene hk m h = Inr (m1, h1, c, ev1) \<and> canvas gh \<noteq> None \<and>
        r = (m1\<lparr>currentScene := Some c\<rparr>, updateTiming now gh, fst (renderPass hk h1 c),
             ev1 @ snd (renderPass hk h1 c)
             @ (if \<not> paused gh then [RequestAnimFrame (ToInt32 (FPSMS - real_of_int (now2 - now)))] else [])))"
  by (auto simp: frame_def Let_def updateTiming_fields split: sum.splits option.splits prod.splits)

lemma initCalls_renderPass [simp]: "initCalls (snd (renderPass hk h c)) = []"
  by (simp add: renderPass_def split: option.splits)

lemma resolveScene_stays:
  "currentScene m = Some c \<Longrightarrow> \<not> isGameOver hk \<Longrightarrow> \<not> (intervalDone (h c) \<and> isComplete hk c) \<Longrightarrow>
   resolveScene hk m h = Inr (m, h, c, [])"
  by (auto simp: resolveScene_def enterScene_def advanceScene_def)

lemma resolveScene_total:
  "scenes m \<noteq> [] \<Longrightarrow> endScene m \<noteq> None \<Longrightarrow> - 1 \<le> sceneIndex m \<Longrightarrow> \<exists>r. resolveScene hk m h = Inr r"
  by (auto simp: resolveScene_def enterScene_def advanceScene_def initScene_def sceneAt_def Let_def
      split: option.splits sum.splits)

lemma frame_total: "wellFormed m gh \<Longrightarrow> \<exists>r. frame hk now now2 m gh h = Inr r"
  using resolveScene_total [of m hk h] by (auto simp: frame_Inr wellFormed_def)

lemma intervalDone_onInitScene: "intervalDone (onInitScene sc) \<longleftrightarrow> interval sc = None"
  by (simp add: intervalDone_def onInitScene_def reset_def split: option.splits)

lemma enterScene_cases:
  assumes "enterScene hk m h = Inr (m1, h1, c1, ev1)"
  shows "(currentScene m = None \<and> sceneAt (scenes m) 0 = Some c1 \<and> m1 = m\<lparr>sceneIndex := 0\<rparr>
            \<and> h1 = h(c1 := onInitScene (h c1)) \<and> ev1 = [OnInitScene c1])
         \<or> (currentScene m \<noteq> None \<and> isGameOver hk \<and> endScene m = Some c1 \<and> m1 = m\<lparr>sceneIndex := - 1\<rparr>
            \<and> h1 = h(c1 := onInitScene (h c1)) \<and> ev1 = [OnInitScene c1])
         \<or> (currentScene m = Some c1 \<and> \<not> isGameOver hk \<and> m1 = m \<and> h1 = h \<and> ev1 = [])"
  using assms
  by (auto simp: enterScene_def initScene_def split: option.splits if_splits)

lemma advanceScene_cases:
  assumes "advanceScene hk m h c = Inr (m2, h2, c2, ev2)"
  shows "(intervalDone (h c) \<and> isComplete hk c \<and> ev2 = [OnInitScene c2]
            \<and> h2 = h(c2 := onInitScene (h c2))
            \<and> ((sceneIndex m + 1 < int (length (scenes m))
                  \<and> sceneAt (scenes m) (sceneIndex m + 1) = Some c2
                  \<and> m2 = m\<lparr>sceneIndex := sceneIndex m + 1\<rparr>)
               \<or> (\<not> sceneIndex m + 1 < int (length (scenes m))
                  \<and> sceneAt (scenes m) 0 = Some c2 \<and> m2 = m\<lparr>sceneIndex := 0\<rparr>)))
         \<or> (\<not> (intervalDone (h c) \<and> isComplete hk c) \<and> m2 = m \<and> h2 = h \<and> c2 = c \<and> ev2 = [])"
  using assms
  by (auto simp: advanceScene_def initScene_def Let_def split: option.splits if_splits)

lemma resolveScene_Inr:
  "resolveScene hk m h = Inr (m2, h2, c2, ev) \<longleftrightarrow>
     (\<exists>m1 h1 c1 ev1 ev2. enterScene hk m h = Inr (m1, h1, c1, ev1)
        \<and> advanceScene hk m1 h1 c1 = Inr (m2, h2, c2, ev2) \<and> ev = ev1 @ ev2)"
  by (auto simp: resolveScene_def split: sum.splits prod.splits)

lemma onInitScene_no_interval: "interval sc = None \<Longrightarrow> onInitScene sc = sc"
  by (simp add: onInitScene_def)

lemma renderPass_no_interval:
  "interval (h c) = None \<Longrightarrow>
   renderPass hk h c = (h, [CtxSave, OnBeforeRenderScene c, OnRenderGame, OnRenderScene c, CtxRestore])"
  by (simp add: renderPass_def)

lemma sceneAt_Some_length: "sceneAt xs i = Some s \<Longrightarrow> 0 \<le> i \<and> i < int (length xs)"
  by (simp add: sceneAt_def split: if_splits)

lemma resolveScene_indexOk:
  assumes "indexOk m" and "resolveScene hk m h = Inr (m', h', c', ev)"
  shows "indexOk m'"
proof -
  from assms(2) obtain m1 h1 c1 ev1 ev2 where
    e: "enterScene hk m h = Inr (m1, h1, c1, ev1)" and
    a: "advanceScene hk m1 h1 c1 = Inr (m', h', c', ev2)"
    by (auto simp: resolveScene_Inr)
  have "indexOk m1"
    using enterScene_cases [OF e] assms(1)
    by (auto simp: indexOk_def dest: sceneAt_Some_length)
  then show ?thesis
    using advanceScene_cases [OF a]
    by (auto simp: indexOk_def dest: sceneAt_Some_length)
qed

lemma frame_indexOk:
  assumes "indexOk m" and "frame hk now now2 m gh h = Inr (m', gh', h', ev)"
  shows "indexOk m'"
proof -
  from assms(2) obtain m1 h1 c ev1 where
    r: "resolveScene hk m h = Inr (m1, h1, c, ev1)" and m': "m' = m1\<lparr>currentScene := Some c\<rparr>"
    by (auto simp: frame_Inr)
  from resolveScene_indexOk [OF assms(1) r] show ?thesis
    by (simp add: m' indexOk_def)
qed

lemma run_indexOk:
  "indexOk m \<Longrightarrow> run ts m gh h = Inr (m', gh', h', ev) \<Longrightarrow> indexOk m'"
proof (induction ts arbitrary: m gh h ev)
  case Nil
  then show ?case by simp
next
  case (Cons t ts)
  obtain hk now now2 where t: "t = (hk, now, now2)" by (cases t) auto
  from Cons.prems(2) obtain m1 gh1 h1 ev1 ev2 where
    f: "frame hk now now2 m gh h = Inr (m1, gh1, h1, ev1)" and
    r: "run ts m1 gh1 h1 = Inr (m', gh', h', ev2)"
    by (auto simp: t split: sum.splits prod.splits)
  from frame_indexOk [OF Cons.prems(1) f] have "indexOk m1" .
  from Cons.IH [OF this r] show ?case .
qed

lemma resolveScene_events:
  assumes "resolveScene hk m h = Inr (m1, h1, c, ev)"
  shows "ev = map OnInitScene (initCalls ev)"
    and "initCalls ev = [] \<longrightarrow> Some c = currentScene m"
    and "initCalls ev \<noteq> [] \<longrightarrow> c = last (initCalls ev)"
proof -
  from assms obtain m0 h0 c0 ev1 ev2 where
    e: "enterScene hk m h = Inr (m0, h0, c0, ev1)" and
    a: "advanceScene hk m0 h0 c0 = Inr (m1, h1, c, ev2)" and
    ev: "ev = ev1 @ ev2"
    by (auto simp: resolveScene_Inr)
  note E = enterScene_cases [OF e] and A = advanceScene_cases [OF a]
  show "ev = map OnInitScene (initCalls ev)" using E A ev by auto
  show "initCalls ev = [] \<longrightarrow> Some c = currentScene m" using E A ev by auto
  show "initCalls ev \<noteq> [] \<longrightarrow> c = last (initCalls ev)" using E A ev by auto
qed

lemma frame_initCalls:
  assumes "frame hk now now2 m gh h = Inr (m', gh', h', ev)"
  shows "\<exists>m1 h1 c ev1. resolveScene hk m h = Inr (m1, h1, c, ev1) \<and> currentScene m' = Some c
           \<and> initCalls ev = initCalls ev1"
  using assms by (auto simp: frame_Inr)

lemma callFrame_Inr:
  "callFrame hk now now2 gh h = Inr (gh', h', ev) \<longleftrightarrow>
     (\<exists>m m' g1. game gh = Some m \<and> frame hk now now2 m gh h = Inr (m', g1, h', ev)
        \<and> gh' = g1\<lparr>game := Some m'\<rparr>)"
  by (auto simp: callFrame_def split: option.splits sum.splits prod.splits)

lemma pause_resume:
  assumes "paused gh" and "pause hk t0 now now2 gh h = Inr (ghR, hR, evR)"
  shows "frameMultipler ghR = real_of_int (if now - t0 = 0 then 1 else now - t0) / FPSMS"
    and "\<not> paused ghR" and "frameCount ghR = frameCount gh + 1" and "frameStart ghR = now"
    and "\<exists>k. RequestAnimFrame k \<in> set evR"
proof -
  let ?g = "gh\<lparr>paused := False, frameStart := t0\<rparr>"
  from assms obtain m m' g1 where
    f: "frame hk now now2 m ?g h = Inr (m', g1, hR, evR)" and g: "ghR = g1\<lparr>game := Some m'\<rparr>"
    by (auto simp: pause_def callFrame_Inr)
  from f have g1: "g1 = updateTiming now ?g" by (auto simp: frame_Inr)
  show "frameMultipler ghR = real_of_int (if now - t0 = 0 then 1 else now - t0) / FPSMS"
    by (simp add: g g1 updateTiming_frameMultipler)
  show "\<not> paused ghR" by (simp add: g g1 updateTiming_fields)
  show "frameCount ghR = frameCount gh + 1" by (simp add: g g1 updateTiming_fields)
  show "frameStart ghR = now" by (simp add: g g1 updateTiming_fields)
  show "\<exists>k. RequestAnimFrame k \<in> set evR" using f by (auto simp: frame_Inr)
qed

lemma frame_paused_no_request:
  assumes "paused gh" and "frame hk now now2 m gh h = Inr (m', gh', h', ev)"
  shows "RequestAnimFrame k \<notin> set ev"
proof -
  from assms obtain m1 h1 c ev1 where
    r: "resolveScene hk m h = Inr (m1, h1, c, ev1)" and ev: "ev = ev1 @ snd (renderPass hk h1 c)"
    by (auto simp: frame_Inr)
  have "RequestAnimFrame k \<notin> set (map OnInitScene (initCalls ev1))"
    by auto
  then have "RequestAnimFrame k \<notin> set ev1"
    using resolveScene_events(1) [OF r] by simp
  moreover have "RequestAnimFrame k \<notin> set (snd (renderPass hk h1 c))"
    by (simp add: renderPass_def split: option.splits)
  ultimately show ?thesis by (simp add: ev)
qed

section \<open>Example runs\<close>

lemma frameOffset_example: "ToInt32 (FPSMS - real_of_int (17 - 16)) = 15"
  by (simp add: ToInt32_def FPSMS_def truncate_toward_zero_def)

lemma frameOffset_second: "ToInt32 (FPSMS - real_of_int (34 - 33)) = 15"
  by (simp add: ToInt32_def FPSMS_def truncate_toward_zero_def)

lemma plain_interval [simp]: "interval (plain_scenes c) = None"
  by (simp add: plain_scenes_def)

lemma timed_init [simp]: "onInitScene (timed_scenes c) = timed_scenes c"
  by (simp add: timed_scenes_def onInitScene_def reset_def)

lemma plain_init [simp]: "onInitScene (plain_scenes c) = plain_scenes c"
  by (simp add: onInitScene_no_interval)

lemma resolve_first_and_advance:
  "resolveScene (hooks False True) two_scenes plain_scenes
     = Inr (two_scenes\<lparr>sceneIndex := 1\<rparr>, plain_scenes, 1, [OnInitScene 0, OnInitScene 1])"
  by (simp add: resolveScene_def enterScene_def advanceScene_def initScene_def sceneAt_def
      intervalDone_def hooks_def two_scenes_def Main_new_def Let_def)

lemma resolve_game_over_timed:
  "resolveScene (hooks True True) playing timed_scenes
     = Inr (playing\<lparr>sceneIndex := - 1\<rparr>, timed_scenes, 2, [OnInitScene 2])"
  by (simp add: resolveScene_def enterScene_def advanceScene_def initScene_def sceneAt_def
      intervalDone_def hooks_def playing_def two_scenes_def Main_new_def Let_def)
     (simp add: timed_scenes_def)

lemma frame_steady:
  "frame (hooks False False) now now2 playing ready plain_scenes
     = Inr (playing, updateTiming now ready, plain_scenes,
            steady_render 0 @ [RequestAnimFrame (ToInt32 (FPSMS - real_of_int (now2 - now)))])"
proof -
  have "resolveScene (hooks False False) playing plain_scenes = Inr (playing, plain_scenes, 0, [])"
    by (rule resolveScene_stays) (simp_all add: playing_def hooks_def)
  then show ?thesis
    by (simp add: frame_Inr renderPass_no_interval steady_render_def)
       (simp add: ready_def GameHandler_initial_def playing_def)
qed

lemma frame_game_over:
  "currentScene m \<noteq> None \<Longrightarrow> endScene m = Some e \<Longrightarrow> canvas gh \<noteq> None \<Longrightarrow> \<not> paused gh \<Longrightarrow>
   frame (hooks True False) now now2 m gh plain_scenes
     = Inr (m\<lparr>sceneIndex := - 1, currentScene := Some e\<rparr>, updateTiming now gh, plain_scenes,
            OnInitScene e # steady_render e
            @ [RequestAnimFrame (ToInt32 (FPSMS - real_of_int (now2 - now)))])"
proof -
  assume a: "currentScene m \<noteq> None" "endScene m = Some e" "canvas gh \<noteq> None" "\<not> paused gh"
  have "resolveScene (hooks True False) m plain_scenes
          = Inr (m\<lparr>sceneIndex := - 1\<rparr>, plain_scenes, e, [OnInitScene e])"
    using a(1,2)
    by (auto simp: resolveScene_def enterScene_def advanceScene_def initScene_def hooks_def)
  then show ?thesis
    using a(3,4) by (simp add: frame_Inr renderPass_no_interval steady_render_def)
qed

lemma frame_steady_any:
  assumes "canvas gh \<noteq> None" and "\<not> paused gh"
  shows "frame (hooks False False) now now2 playing gh plain_scenes
     = Inr (playing, updateTiming now gh, plain_scenes,
            steady_render 0 @ [RequestAnimFrame (ToInt32 (FPSMS - real_of_int (now2 - now)))])"
proof -
  have "resolveScene (hooks False False) playing plain_scenes = Inr (playing, plain_scenes, 0, [])"
    by (rule resolveScene_stays) (simp_all add: playing_def hooks_def)
  moreover have "playing\<lparr>currentScene := Some 0\<rparr> = playing" by (simp add: playing_def)
  ultimately show ?thesis
    using assms by (simp add: frame_Inr renderPass_no_interval steady_render_def)
qed

lemma pause_halted:
  "pause (hooks False False) t0 now now2 halted plain_scenes
     = Inr (resumed t0 now, plain_scenes,
            steady_render 0 @ [RequestAnimFrame (ToInt32 (FPSMS - real_of_int (now2 - now)))])"
proof -
  let ?g = "halted\<lparr>paused := False, frameStart := t0\<rparr>"
  have g: "game ?g = Some playing" "canvas ?g \<noteq> None" "\<not> paused ?g" "paused halted"
    by (simp_all add: halted_def ready_def)
  show ?thesis
    by (simp add: pause_def g callFrame_def frame_steady_any [OF g(2,3)] resumed_def)
qed

section \<open>Frame timing\<close>

text \<open>
  Claim C1: a frame that returns sets \<open>frameMultipler\<close> to \<open>e / (1000 / 60)\<close>, where
  \<open>e\<close> is the frame's start time minus the start time of the previous frame, with 1 in
  place of \<open>e\<close> when \<open>e = 0\<close> (the multiplier is then \<open>60 / 1000\<close>, and the division by the
  interval for \<open>maxfps\<close> is by that guarded value); it then stores the frame's start time in
  \<open>frameStart\<close>. On a well-formed configuration every frame returns.
\<close>

theorem frame_timing:
  "(wellFormed m gh \<longrightarrow> (\<exists>r. frame hk now now2 m gh h = Inr r))
   \<and> (frame hk now now2 m gh h = Inr (m', gh', h', ev) \<longrightarrow>
        frameMultipler gh'
          = real_of_int (if now - frameStart gh = 0 then 1 else now - frameStart gh) / (1000 / 60)
        \<and> (now - frameStart gh = 0 \<longrightarrow> frameMultipler gh' = 60 / 1000)
        \<and> ((frameCount gh + 1) mod 16 = 0 \<longrightarrow>
             maxfps gh' = ToInt32 (1000 / real_of_int (if now - frameStart gh = 0 then 1
                                                        else now - frameStart gh)))
        \<and> frameStart gh' = now)"
proof -
  have "frame hk now now2 m gh h = Inr (m', gh', h', ev) \<longrightarrow> gh' = updateTiming now gh"
    by (auto simp: frame_Inr)
  moreover have "frameMultipler (updateTiming now gh)
      = real_of_int (if now - frameStart gh = 0 then 1 else now - frameStart gh) / (1000 / 60)"
    by (simp only: updateTiming_frameMultipler FPSMS_def)
  moreover have "now - frameStart gh = 0 \<longrightarrow> frameMultipler (updateTiming now gh) = 60 / 1000"
    by (simp add: updateTiming_frameMultipler FPSMS_def)
  moreover have "(frameCount gh + 1) mod 16 = 0 \<longrightarrow>
      maxfps (updateTiming now gh) = ToInt32 (1000 / real_of_int (if now - frameStart gh = 0 then 1
                                                                   else now - frameStart gh))"
    by (simp add: updateTiming_def Let_def)
  ultimately show ?thesis
    using frame_total [of m gh hk now now2 h] by (auto simp: updateTiming_fields)
qed

theorem frame_timing_witness:
  "wellFormed playing ready
   \<and> frame (hooks False False) 50 51 playing ready plain_scenes
       = Inr (playing, updateTiming 50 ready, plain_scenes,
              steady_render 0 @ [RequestAnimFrame (ToInt32 (FPSMS - real_of_int (51 - 50)))])
   \<and> frameMultipler (updateTiming 50 ready) = 3
   \<and> frameStart (updateTiming 50 ready) = 50
   \<and> frameMultipler (updateTiming 0 ready) = 60 / 1000"
proof -
  have w: "wellFormed playing ready"
    by (simp add: wellFormed_def playing_def two_scenes_def Main_new_def ready_def GameHandler_initial_def)
  have s: "frameStart ready = 0" by (simp add: ready_def GameHandler_initial_def)
  note a = frame_timing [where hk = "hooks False False" and now = 50 and ?now2.0 = 51 and m = playing
        and gh = ready and h = plain_scenes and m' = playing and gh' = "updateTiming 50 ready"
        and h' = plain_scenes
        and ev = "steady_render 0 @ [RequestAnimFrame (ToInt32 (FPSMS - real_of_int (51 - 50)))]",
        THEN conjunct2, THEN mp, OF frame_steady]
  note b = frame_timing [where hk = "hooks False False" and now = 0 and ?now2.0 = 1 and m = playing
        and gh = ready and h = plain_scenes and m' = playing and gh' = "updateTiming 0 ready"
        and h' = plain_scenes
        and ev = "steady_render 0 @ [RequestAnimFrame (ToInt32 (FPSMS - real_of_int (1 - 0)))]",
        THEN conjunct2, THEN mp, OF frame_steady]
  have m50: "frameMultipler (updateTiming 50 ready) = 3" using a s by simp
  have s50: "frameStart (updateTiming 50 ready) = 50" using a by simp
  have m0: "frameMultipler (updateTiming 0 ready) = 60 / 1000" using b s by simp
  from w frame_steady [of 50 51] m50 s50 m0 show ?thesis by (simp only: simp_thms)
qed

section \<open>Scene transitions\<close>

text \<open>
  Claim C2: when there is a current scene, the game is not over, and the current scene has
  an interval that is not complete, the resolution changes nothing (same scene, same index,
  no init hook), whatever \<open>isComplete\<close> returns; the frame keeps that scene.
\<close>

theorem interval_gates_advance:
  assumes "currentScene m = Some c" and "\<not> isGameOver hk"
    and "interval (h c) = Some i" and "\<not> complete_flag i"
  shows "resolveScene hk m h = Inr (m, h, c, [])
    \<and> (canvas gh \<noteq> None \<longrightarrow>
         (\<exists>h' ev. frame hk now now2 m gh h = Inr (m, updateTiming now gh, h', ev) \<and> initCalls ev = []))"
proof -
  have nd: "\<not> (intervalDone (h c) \<and> isComplete hk c)"
    using assms(3,4) by (simp add: intervalDone_def)
  have r: "resolveScene hk m h = Inr (m, h, c, [])"
    using assms(1,2) nd by (rule resolveScene_stays)
  have m: "m\<lparr>currentScene := Some c\<rparr> = m" using assms(1) by simp
  have "canvas gh \<noteq> None \<longrightarrow>
         (\<exists>h' ev. frame hk now now2 m gh h = Inr (m, updateTiming now gh, h', ev) \<and> initCalls ev = [])"
    by (simp add: frame_Inr r m)
  with r show ?thesis by simp
qed

theorem interval_gates_advance_witness:
  "currentScene playing = Some 0 \<and> \<not> isGameOver (hooks False True)
   \<and> interval (timed_scenes 0) = Some \<lparr>label = ''wait'', framecounter = 0, complete_flag = False\<rparr>
   \<and> isComplete (hooks False True) 0
   \<and> resolveScene (hooks False True) playing timed_scenes = Inr (playing, timed_scenes, 0, [])
   \<and> (\<exists>h' ev. frame (hooks False True) 16 17 playing ready timed_scenes
                 = Inr (playing, updateTiming 16 ready, h', ev) \<and> initCalls ev = [])"
proof -
  have c: "currentScene playing = Some 0" by (simp add: playing_def)
  have g: "\<not> isGameOver (hooks False True)" by (simp add: hooks_def)
  have i: "interval (timed_scenes 0) = Some \<lparr>label = ''wait'', framecounter = 0, complete_flag = False\<rparr>"
    by (simp add: timed_scenes_def)
  have n: "\<not> complete_flag \<lparr>label = ''wait'', framecounter = 0, complete_flag = False\<rparr>" by simp
  have d: "isComplete (hooks False True) 0" by (simp add: hooks_def)
  have v: "canvas ready \<noteq> None" by (simp add: ready_def)
  note T = interval_gates_advance [where m = playing and c = 0 and hk = "hooks False True"
      and h = timed_scenes and i = "\<lparr>label = ''wait'', framecounter = 0, complete_flag = False\<rparr>"
      and gh = ready and now = 16 and ?now2.0 = 17, OF c g i n]
  from T have r: "resolveScene (hooks False True) playing timed_scenes = Inr (playing, timed_scenes, 0, [])"
    by (rule conjunct1)
  from T v have f: "\<exists>h' ev. frame (hooks False True) 16 17 playing ready timed_scenes
                 = Inr (playing, updateTiming 16 ready, h', ev) \<and> initCalls ev = []"
    by blast
  from c g i d r f show ?thesis by blast
qed

text \<open>
  Claim C3, as the code has it. Rule 1 (no current scene: scene 0) and rule 2 (game over:
  the end scene) exclude each other, in that order. Rule 3 (advance on completion) is a
  separate test that follows, on the scene rules 1 and 2 leave as current, whether or not one
  of them fired. A resolution therefore makes at most two transitions. After rule 1 or 2,
  rule 3 fires exactly when the scene entered has no interval and its \<open>isComplete\<close> returns
  true (an interval is reset to incomplete by the init hook, which closes the gate).
\<close>

theorem resolveScene_transitions:
  assumes "resolveScene hk m h = Inr (m', h', c', ev)"
  shows "length ev \<le> 2
    \<and> (currentScene m = None \<longrightarrow>
         (\<exists>s. sceneAt (scenes m) 0 = Some s \<and>
            (if interval (h s) = None \<and> isComplete hk s
             then ev = [OnInitScene s, OnInitScene c'] else ev = [OnInitScene s] \<and> c' = s)))
    \<and> (currentScene m \<noteq> None \<and> isGameOver hk \<longrightarrow>
         (\<exists>s. endScene m = Some s \<and>
            (if interval (h s) = None \<and> isComplete hk s
             then ev = [OnInitScene s, OnInitScene c'] else ev = [OnInitScene s] \<and> c' = s)))
    \<and> (\<forall>c. currentScene m = Some c \<and> \<not> isGameOver hk \<longrightarrow>
         (if intervalDone (h c) \<and> isComplete hk c
          then ev = [OnInitScene c'] else ev = [] \<and> c' = c))"
proof -
  from assms obtain m1 h1 c1 ev1 ev2 where
    e: "enterScene hk m h = Inr (m1, h1, c1, ev1)" and
    a: "advanceScene hk m1 h1 c1 = Inr (m', h', c', ev2)" and
    ev: "ev = ev1 @ ev2"
    by (auto simp: resolveScene_Inr)
  note E = enterScene_cases [OF e] and A = advanceScene_cases [OF a]
  have len: "length ev \<le> 2" using E A ev by auto
  have r1: "currentScene m = None \<longrightarrow>
         (\<exists>s. sceneAt (scenes m) 0 = Some s \<and>
            (if interval (h s) = None \<and> isComplete hk s
             then ev = [OnInitScene s, OnInitScene c'] else ev = [OnInitScene s] \<and> c' = s))"
    using E A ev by (auto simp: intervalDone_onInitScene)
  have r2: "currentScene m \<noteq> None \<and> isGameOver hk \<longrightarrow>
         (\<exists>s. endScene m = Some s \<and>
            (if interval (h s) = None \<and> isComplete hk s
             then ev = [OnInitScene s, OnInitScene c'] else ev = [OnInitScene s] \<and> c' = s))"
    using E A ev by (auto simp: intervalDone_onInitScene)
  have r3: "\<forall>c. currentScene m = Some c \<and> \<not> isGameOver hk \<longrightarrow>
         (if intervalDone (h c) \<and> isComplete hk c
          then ev = [OnInitScene c'] else ev = [] \<and> c' = c)"
    using E A ev by auto
  from len r1 r2 r3 show ?thesis by blast
qed

theorem resolveScene_transitions_witness:
  "resolveScene (hooks True True) playing timed_scenes
     = Inr (playing\<lparr>sceneIndex := - 1\<rparr>, timed_scenes, 2, [OnInitScene 2])
   \<and> currentScene playing \<noteq> None \<and> isGameOver (hooks True True) \<and> endScene playing = Some 2
   \<and> interval (timed_scenes 2) \<noteq> None \<and> length [OnInitScene 2] \<le> 2"
proof -
  have c: "currentScene playing \<noteq> None" by (simp add: playing_def)
  have g: "isGameOver (hooks True True)" by (simp add: hooks_def)
  have e: "endScene playing = Some 2" by (simp add: playing_def two_scenes_def Main_new_def)
  have i: "interval (timed_scenes 2) \<noteq> None" by (simp add: timed_scenes_def)
  from resolveScene_transitions [OF resolve_game_over_timed]
  have l: "length [OnInitScene 2] \<le> 2" by (rule conjunct1)
  from resolve_game_over_timed c g e i l show ?thesis by blast
qed

text \<open>
  Claim C3 as it was stated fails on the first frame of a game whose scene 0 has no interval
  and reports completion: rule 1 enters scene 0 and rule 3 advances to scene 1 in the same
  resolution.
\<close>

theorem rule_one_and_rule_three_fire:
  "currentScene two_scenes = None
   \<and> resolveScene (hooks False True) two_scenes plain_scenes
       = Inr (two_scenes\<lparr>sceneIndex := 1\<rparr>, plain_scenes, 1, [OnInitScene 0, OnInitScene 1])"
proof -
  have "currentScene two_scenes = None" by (simp add: two_scenes_def Main_new_def)
  with resolve_first_and_advance show ?thesis by blast
qed

lemma frame_advance_plain:
  assumes "currentScene m = Some c" and "\<not> isGameOver hk" and "interval (h c) = None"
    and "isComplete hk c" and "canvas gh \<noteq> None"
    and "sceneAt (scenes m) (if sceneIndex m + 1 < int (length (scenes m)) then sceneIndex m + 1 else 0) = Some n"
    and "interval (h n) = None"
  shows "\<exists>ev. frame hk now now2 m gh h =
           Inr (m\<lparr>sceneIndex := (if sceneIndex m + 1 < int (length (scenes m)) then sceneIndex m + 1 else 0),
                  currentScene := Some n\<rparr>, updateTiming now gh, h, ev)
         \<and> initCalls ev = [n]"
proof -
  have "resolveScene hk m h =
      Inr (m\<lparr>sceneIndex := (if sceneIndex m + 1 < int (length (scenes m)) then sceneIndex m + 1 else 0)\<rparr>,
           h, n, [OnInitScene n])"
    using assms
    by (auto simp: resolveScene_def enterScene_def advanceScene_def initScene_def intervalDone_def
        Let_def onInitScene_no_interval)
  then show ?thesis
    using assms(5,7) by (simp add: frame_Inr renderPass_no_interval)
qed

text \<open>
  Claim C4: with the scenes \<open>[A, B]\<close>, neither with an interval, and the game not over:
  a frame with \<open>A\<close> current at index 0 and \<open>A.isComplete()\<close> true makes \<open>B\<close> current at
  index 1; a frame with \<open>B\<close> current at index 1 and \<open>B.isComplete()\<close> true wraps the index
  to 0, makes \<open>A\<close> current and calls the init hook of \<open>A\<close> once and no other; a frame
  whose current scene is not complete stays. The index is the sentinel at the start, and
  every frame, and every run of frames, keeps it the sentinel or within the scene list.
\<close>

theorem two_scene_cycle:
  assumes "scenes m = [A, B]" and "interval (h A) = None" and "interval (h B) = None"
    and "canvas gh \<noteq> None" and "\<not> isGameOver hk"
  shows "(currentScene m = Some A \<and> sceneIndex m = 0 \<and> isComplete hk A \<longrightarrow>
           (\<exists>ev. frame hk now now2 m gh h =
                   Inr (m\<lparr>sceneIndex := 1, currentScene := Some B\<rparr>, updateTiming now gh, h, ev)
                 \<and> initCalls ev = [B]))
    \<and> (currentScene m = Some B \<and> sceneIndex m = 1 \<and> isComplete hk B \<longrightarrow>
           (\<exists>ev. frame hk now now2 m gh h =
                   Inr (m\<lparr>sceneIndex := 0, currentScene := Some A\<rparr>, updateTiming now gh, h, ev)
                 \<and> initCalls ev = [A]))
    \<and> (\<forall>c \<in> {A, B}. currentScene m = Some c \<and> \<not> isComplete hk c \<longrightarrow>
           (\<exists>ev. frame hk now now2 m gh h = Inr (m, updateTiming now gh, h, ev) \<and> initCalls ev = []))
    \<and> (\<forall>k t t' g0 m0 h0 m1 g1 h1 ev. indexOk m0 \<and> frame k t t' m0 g0 h0 = Inr (m1, g1, h1, ev)
           \<longrightarrow> indexOk m1)
    \<and> (\<forall>ts g0 m0 h0 m1 g1 h1 ev. indexOk m0 \<and> run ts m0 g0 h0 = Inr (m1, g1, h1, ev)
           \<longrightarrow> indexOk m1)
    \<and> (\<forall>ss e. indexOk (Main_new ss e))"
proof -
  have ab: "currentScene m = Some A \<and> sceneIndex m = 0 \<and> isComplete hk A \<longrightarrow>
           (\<exists>ev. frame hk now now2 m gh h =
                   Inr (m\<lparr>sceneIndex := 1, currentScene := Some B\<rparr>, updateTiming now gh, h, ev)
                 \<and> initCalls ev = [B])"
  proof
    assume h: "currentScene m = Some A \<and> sceneIndex m = 0 \<and> isComplete hk A"
    show "\<exists>ev. frame hk now now2 m gh h =
                   Inr (m\<lparr>sceneIndex := 1, currentScene := Some B\<rparr>, updateTiming now gh, h, ev)
                 \<and> initCalls ev = [B]"
      using frame_advance_plain [of m A hk h gh B now now2] h assms
      by (simp add: sceneAt_def)
  qed
  have ba: "currentScene m = Some B \<and> sceneIndex m = 1 \<and> isComplete hk B \<longrightarrow>
           (\<exists>ev. frame hk now now2 m gh h =
                   Inr (m\<lparr>sceneIndex := 0, currentScene := Some A\<rparr>, updateTiming now gh, h, ev)
                 \<and> initCalls ev = [A])"
  proof
    assume h: "currentScene m = Some B \<and> sceneIndex m = 1 \<and> isComplete hk B"
    show "\<exists>ev. frame hk now now2 m gh h =
                   Inr (m\<lparr>sceneIndex := 0, currentScene := Some A\<rparr>, updateTiming now gh, h, ev)
                 \<and> initCalls ev = [A]"
      using frame_advance_plain [of m B hk h gh A now now2] h assms
      by (simp add: sceneAt_def)
  qed
  have stay: "\<forall>c \<in> {A, B}. currentScene m = Some c \<and> \<not> isComplete hk c \<longrightarrow>
           (\<exists>ev. frame hk now now2 m gh h = Inr (m, updateTiming now gh, h, ev) \<and> initCalls ev = [])"
  proof (intro ballI impI)
    fix c assume c: "c \<in> {A, B}" and h: "currentScene m = Some c \<and> \<not> isComplete hk c"
    have i: "interval (h c) = None" using c assms(2,3) by auto
    have r: "resolveScene hk m h = Inr (m, h, c, [])"
      using h assms(5) by (intro resolveScene_stays) auto
    have m: "m\<lparr>currentScene := Some c\<rparr> = m" using h by simp
    show "\<exists>ev. frame hk now now2 m gh h = Inr (m, updateTiming now gh, h, ev) \<and> initCalls ev = []"
      using assms(4) by (simp add: frame_Inr r m renderPass_no_interval i)
  qed
  have inv: "\<forall>k t t' g0 m0 h0 m1 g1 h1 ev. indexOk m0 \<and> frame k t t' m0 g0 h0 = Inr (m1, g1, h1, ev)
           \<longrightarrow> indexOk m1"
    using frame_indexOk by blast
  have rinv: "\<forall>ts g0 m0 h0 m1 g1 h1 ev. indexOk m0 \<and> run ts m0 g0 h0 = Inr (m1, g1, h1, ev)
           \<longrightarrow> indexOk m1"
    using run_indexOk by blast
  have init: "\<forall>ss e. indexOk (Main_new ss e)"
    by (simp add: indexOk_def Main_new_def)
  from ab ba stay inv rinv init show ?thesis by blast
qed

theorem two_scene_cycle_witness:
  "scenes playing = [0, 1] \<and> interval (plain_scenes 0) = None \<and> interval (plain_scenes 1) = None
   \<and> canvas ready \<noteq> None \<and> \<not> isGameOver (hooks False True) \<and> isComplete (hooks False True) 0
   \<and> currentScene playing = Some 0 \<and> sceneIndex playing = 0
   \<and> (\<exists>ev. frame (hooks False True) 16 17 playing ready plain_scenes
             = Inr (playing\<lparr>sceneIndex := 1, currentScene := Some 1\<rparr>, updateTiming 16 ready,
                    plain_scenes, ev) \<and> initCalls ev = [1])
   \<and> (\<exists>ev. frame (hooks False True) 33 34 (playing\<lparr>sceneIndex := 1, currentScene := Some 1\<rparr>)
               (updateTiming 16 ready) plain_scenes
             = Inr (playing\<lparr>sceneIndex := 1, currentScene := Some 1, sceneIndex := 0,
                      currentScene := Some 0\<rparr>,
                    updateTiming 33 (updateTiming 16 ready), plain_scenes, ev)
               \<and> initCalls ev = [0])
   \<and> indexOk (Main_new [0, 1] (Some 2))"
proof -
  let ?second = "playing\<lparr>sceneIndex := 1, currentScene := Some 1\<rparr>"
  have s: "scenes playing = [0, 1]" and c0: "currentScene playing = Some 0"
    and x0: "sceneIndex playing = 0"
    by (simp_all add: playing_def two_scenes_def Main_new_def)
  have s': "scenes ?second = [0, 1]" and c1: "currentScene ?second = Some 1"
    and x1: "sceneIndex ?second = 1"
    by (simp_all add: playing_def two_scenes_def Main_new_def)
  have i0: "interval (plain_scenes 0) = None" and i1: "interval (plain_scenes 1) = None"
    by simp_all
  have v: "canvas ready \<noteq> None" by (simp add: ready_def)
  have v': "canvas (updateTiming 16 ready) \<noteq> None" by (simp add: updateTiming_fields ready_def)
  have g: "\<not> isGameOver (hooks False True)" and d0: "isComplete (hooks False True) 0"
    and d1: "isComplete (hooks False True) 1"
    by (simp_all add: hooks_def)
  note T1 = two_scene_cycle [where m = playing and A = 0 and B = 1 and h = plain_scenes and gh = ready
        and hk = "hooks False True" and now = 16 and ?now2.0 = 17, OF s i0 i1 v g]
  note T2 = two_scene_cycle [where m = ?second and A = 0
        and B = 1 and h = plain_scenes and gh = "updateTiming 16 ready"
        and hk = "hooks False True" and now = 33 and ?now2.0 = 34, OF s' i0 i1 v' g]
  from T1 c0 x0 d0 have a: "\<exists>ev. frame (hooks False True) 16 17 playing ready plain_scenes
             = Inr (playing\<lparr>sceneIndex := 1, currentScene := Some 1\<rparr>, updateTiming 16 ready,
                    plain_scenes, ev) \<and> initCalls ev = [1]"
    by blast
  from T2 c1 x1 d1 have b: "\<exists>ev. frame (hooks False True) 33 34 ?second
               (updateTiming 16 ready) plain_scenes
             = Inr (?second\<lparr>sceneIndex := 0, currentScene := Some 0\<rparr>,
                    updateTiming 33 (updateTiming 16 ready), plain_scenes, ev)
               \<and> initCalls ev = [0]"
    by blast
  from T1 have k: "indexOk (Main_new [0, 1] (Some 2))" by blast
  from s i0 i1 v g d0 c0 x0 a b k show ?thesis by blast
qed

text \<open>
  Claim C5, as the code has it. A frame calls no init hook exactly when no rule fires, and
  then the current scene stays; when it calls one, the scene whose hook ran last is the
  current scene afterwards, so a scene that becomes current had its hook called in that
  frame. The hook is also called for a scene that is current already: on every frame on
  which the game is over the end scene is entered and initialised again.
\<close>

theorem onInitScene_calls:
  assumes "frame hk now now2 m gh h = Inr (m', gh', h', ev)"
  shows "(initCalls ev = [] \<longrightarrow> currentScene m' = currentScene m)
    \<and> (initCalls ev \<noteq> [] \<longrightarrow> currentScene m' = Some (last (initCalls ev)))
    \<and> (\<forall>c. currentScene m = Some c \<and> \<not> isGameOver hk \<and> \<not> (intervalDone (h c) \<and> isComplete hk c)
          \<longrightarrow> initCalls ev = [])
    \<and> (\<forall>c. currentScene m = Some c \<and> \<not> isGameOver hk \<and> intervalDone (h c) \<and> isComplete hk c
          \<longrightarrow> (\<exists>n. initCalls ev = [n]))
    \<and> (currentScene m \<noteq> None \<and> isGameOver hk
          \<longrightarrow> initCalls ev \<noteq> [] \<and> endScene m = Some (hd (initCalls ev)))
    \<and> (currentScene m = None
          \<longrightarrow> initCalls ev \<noteq> [] \<and> sceneAt (scenes m) 0 = Some (hd (initCalls ev)))"
proof -
  from assms obtain m1 h1 c ev1 where
    r: "resolveScene hk m h = Inr (m1, h1, c, ev1)" and c: "currentScene m' = Some c" and
    i: "initCalls ev = initCalls ev1"
    using frame_initCalls by blast
  from r obtain m0 h0 c0 e1 e2 where
    e: "enterScene hk m h = Inr (m0, h0, c0, e1)" and
    a: "advanceScene hk m0 h0 c0 = Inr (m1, h1, c, e2)" and
    ev1: "ev1 = e1 @ e2"
    by (auto simp: resolveScene_Inr)
  note E = enterScene_cases [OF e] and A = advanceScene_cases [OF a]
    and V = resolveScene_events [OF r]
  have p1: "initCalls ev = [] \<longrightarrow> currentScene m' = currentScene m" using V c i by simp
  have p2: "initCalls ev \<noteq> [] \<longrightarrow> currentScene m' = Some (last (initCalls ev))"
    using V c i by simp
  have p3: "\<forall>c. currentScene m = Some c \<and> \<not> isGameOver hk
          \<and> \<not> (intervalDone (h c) \<and> isComplete hk c) \<longrightarrow> initCalls ev = []"
    using E A ev1 i by auto
  have p4: "\<forall>c. currentScene m = Some c \<and> \<not> isGameOver hk \<and> intervalDone (h c) \<and> isComplete hk c
          \<longrightarrow> (\<exists>n. initCalls ev = [n])"
    using E A ev1 i by auto
  have p5: "currentScene m \<noteq> None \<and> isGameOver hk
          \<longrightarrow> initCalls ev \<noteq> [] \<and> endScene m = Some (hd (initCalls ev))"
    using E A ev1 i by auto
  have p6: "currentScene m = None
          \<longrightarrow> initCalls ev \<noteq> [] \<and> sceneAt (scenes m) 0 = Some (hd (initCalls ev))"
    using E A ev1 i by auto
  from p1 p2 p3 p4 p5 p6 show ?thesis by blast
qed

theorem onInitScene_calls_witness:
  "frame (hooks True False) 16 17 playing ready plain_scenes
     = Inr (ended, updateTiming 16 ready, plain_scenes,
            OnInitScene 2 # steady_render 2 @ [RequestAnimFrame 15])
   \<and> initCalls (OnInitScene 2 # steady_render 2 @ [RequestAnimFrame 15]) = [2]
   \<and> currentScene ended = Some (last [2])"
proof -
  have p: "currentScene playing \<noteq> None" "endScene playing = Some 2"
    by (simp_all add: playing_def two_scenes_def Main_new_def)
  have r: "canvas ready \<noteq> None" "\<not> paused ready" by (simp_all add: ready_def GameHandler_initial_def)
  have e: "playing\<lparr>sceneIndex := - 1, currentScene := Some 2\<rparr> = ended"
    by (simp add: playing_def ended_def)
  have f: "frame (hooks True False) 16 17 playing ready plain_scenes
     = Inr (ended, updateTiming 16 ready, plain_scenes,
            OnInitScene 2 # steady_render 2 @ [RequestAnimFrame 15])"
    using frame_game_over [where m = playing and e = 2 and gh = ready and now = 16 and ?now2.0 = 17,
        OF p r]
    by (simp only: e frameOffset_example)
  have i: "initCalls (OnInitScene 2 # steady_render 2 @ [RequestAnimFrame 15]) = [2]"
    by (simp add: steady_render_def)
  from onInitScene_calls [OF f] i have "currentScene ended = Some (last [2])"
    by simp
  with f i show ?thesis by blast
qed

text \<open>
  Claim C5 as it was stated fails while the game stays over. The first frame on which the
  game is over enters the end scene; on the next frame the end scene is current already, and
  the frame calls its init hook again.
\<close>

theorem end_scene_init_every_frame:
  "frame (hooks True False) 16 17 playing ready plain_scenes
     = Inr (ended, updateTiming 16 ready, plain_scenes,
            OnInitScene 2 # steady_render 2 @ [RequestAnimFrame 15])
   \<and> currentScene ended = Some 2
   \<and> frame (hooks True False) 33 34 ended (updateTiming 16 ready) plain_scenes
       = Inr (ended, updateTiming 33 (updateTiming 16 ready), plain_scenes,
              OnInitScene 2 # steady_render 2 @ [RequestAnimFrame 15])"
proof -
  have p: "currentScene playing \<noteq> None" "endScene playing = Some 2"
    by (simp_all add: playing_def two_scenes_def Main_new_def)
  have q: "currentScene ended \<noteq> None" "endScene ended = Some 2" "currentScene ended = Some 2"
    by (simp_all add: ended_def two_scenes_def Main_new_def)
  have r: "canvas ready \<noteq> None" "\<not> paused ready"
    by (simp_all add: ready_def GameHandler_initial_def)
  have r': "canvas (updateTiming 16 ready) \<noteq> None" "\<not> paused (updateTiming 16 ready)"
    by (simp_all add: updateTiming_fields ready_def GameHandler_initial_def)
  have e: "playing\<lparr>sceneIndex := - 1, currentScene := Some 2\<rparr> = ended"
    by (simp add: playing_def ended_def)
  have e': "ended\<lparr>sceneIndex := - 1, currentScene := Some 2\<rparr> = ended"
    by (simp add: ended_def)
  have f: "frame (hooks True False) 16 17 playing ready plain_scenes
     = Inr (ended, updateTiming 16 ready, plain_scenes,
            OnInitScene 2 # steady_render 2 @ [RequestAnimFrame 15])"
    using frame_game_over [where m = playing and e = 2 and gh = ready and now = 16 and ?now2.0 = 17,
        OF p r]
    by (simp only: e frameOffset_example)
  have g: "frame (hooks True False) 33 34 ended (updateTiming 16 ready) plain_scenes
       = Inr (ended, updateTiming 33 (updateTiming 16 ready), plain_scenes,
              OnInitScene 2 # steady_render 2 @ [RequestAnimFrame 15])"
    using frame_game_over [where m = ended and e = 2 and gh = "updateTiming 16 ready" and now = 33
        and ?now2.0 = 34, OF q(1,2) r']
    by (simp only: e' frameOffset_second)
  from f q(3) g show ?thesis by blast
qed

section \<open>Pause and resume\<close>

text \<open>
  Claim C9: \<open>pause()\<close> on a running game only sets the flag, and a frame that runs while
  the flag is set requests no further frame. \<open>pause()\<close> on a paused game clears the flag,
  stores the current time in \<open>frameStart\<close> and runs a frame at once, which requests the next
  one; the multiplier of that frame is computed from the time between the two clock
  readings taken on resuming and from nothing else. Two resumes with the same such gap get
  the same multiplier, whatever the states and the times spent paused.
\<close>

theorem pause_resume_multiplier:
  "(\<not> paused gh \<longrightarrow> pause hk t0 now now2 gh h = Inr (gh\<lparr>paused := True\<rparr>, h, []))
   \<and> (paused gh \<and> frame hk now now2 m gh h = Inr (m', gh', h', ev)
        \<longrightarrow> (\<forall>k. RequestAnimFrame k \<notin> set ev))
   \<and> (paused gh \<and> pause hk t0 now now2 gh h = Inr (ghR, hR, evR) \<longrightarrow>
        frameMultipler ghR = real_of_int (if now - t0 = 0 then 1 else now - t0) / FPSMS
        \<and> \<not> paused ghR \<and> frameCount ghR = frameCount gh + 1 \<and> frameStart ghR = now
        \<and> (\<exists>k. RequestAnimFrame k \<in> set evR))
   \<and> (paused gh \<and> pause hk t0 now now2 gh h = Inr (ghR, hR, evR)
        \<and> paused gh2 \<and> pause hk2 u0 unow unow2 gh2 h2 = Inr (ghS, hS, evS)
        \<and> now - t0 = unow - u0
        \<longrightarrow> frameMultipler ghR = frameMultipler ghS)"
proof -
  have a: "\<not> paused gh \<longrightarrow> pause hk t0 now now2 gh h = Inr (gh\<lparr>paused := True\<rparr>, h, [])"
    by (simp add: pause_def)
  have b: "paused gh \<and> frame hk now now2 m gh h = Inr (m', gh', h', ev)
        \<longrightarrow> (\<forall>k. RequestAnimFrame k \<notin> set ev)"
    using frame_paused_no_request by blast
  have c: "paused gh \<and> pause hk t0 now now2 gh h = Inr (ghR, hR, evR) \<longrightarrow>
        frameMultipler ghR = real_of_int (if now - t0 = 0 then 1 else now - t0) / FPSMS
        \<and> \<not> paused ghR \<and> frameCount ghR = frameCount gh + 1 \<and> frameStart ghR = now
        \<and> (\<exists>k. RequestAnimFrame k \<in> set evR)"
    using pause_resume [of gh hk t0 now now2 h ghR hR evR] by blast
  have d: "paused gh \<and> pause hk t0 now now2 gh h = Inr (ghR, hR, evR)
        \<and> paused gh2 \<and> pause hk2 u0 unow unow2 gh2 h2 = Inr (ghS, hS, evS)
        \<and> now - t0 = unow - u0
        \<longrightarrow> frameMultipler ghR = frameMultipler ghS"
    using pause_resume(1) [of gh hk t0 now now2 h ghR hR evR]
      pause_resume(1) [of gh2 hk2 u0 unow unow2 h2 ghS hS evS]
    by simp
  from a b c d show ?thesis by blast
qed

theorem pause_resume_multiplier_witness:
  "paused halted
   \<and> pause (hooks False False) 5000 5000 5001 halted plain_scenes
       = Inr (resumed 5000 5000, plain_scenes,
              steady_render 0 @ [RequestAnimFrame (ToInt32 (FPSMS - real_of_int (5001 - 5000)))])
   \<and> pause (hooks False False) 90000 90000 90001 halted plain_scenes
       = Inr (resumed 90000 90000, plain_scenes,
              steady_render 0 @ [RequestAnimFrame (ToInt32 (FPSMS - real_of_int (90001 - 90000)))])
   \<and> frameMultipler (resumed 5000 5000) = frameMultipler (resumed 90000 90000)
   \<and> frameMultipler (resumed 5000 5000) = 1 / FPSMS"
proof -
  have p: "paused halted" by (simp add: halted_def)
  have d: "(5000::int) - 5000 = 90000 - 90000" by simp
  note a = pause_halted [of 5000 5000 5001] and b = pause_halted [of 90000 90000 90001]
  note T = pause_resume_multiplier [where gh = halted and hk = "hooks False False" and ?t0.0 = 5000
      and now = 5000 and ?now2.0 = 5001 and h = plain_scenes and ghR = "resumed 5000 5000"
      and hR = plain_scenes
      and evR = "steady_render 0 @ [RequestAnimFrame (ToInt32 (FPSMS - real_of_int (5001 - 5000)))]"
      and ?gh2.0 = halted and ?hk2.0 = "hooks False False" and ?u0.0 = 90000 and unow = 90000
      and ?unow2.0 = 90001 and ?h2.0 = plain_scenes and ghS = "resumed 90000 90000"
      and hS = plain_scenes
      and evS = "steady_render 0 @ [RequestAnimFrame (ToInt32 (FPSMS - real_of_int (90001 - 90000)))]"]
  from T p a b d have e: "frameMultipler (resumed 5000 5000) = frameMultipler (resumed 90000 90000)"
    by blast
  from T p a have "frameMultipler (resumed 5000 5000)
      = real_of_int (if (5000::int) - 5000 = 0 then 1 else 5000 - 5000) / FPSMS"
    by blast
  then have v: "frameMultipler (resumed 5000 5000) = 1 / FPSMS" by simp
  from p a b e v show ?thesis by blast
qed

end
